theory Spec2Isabelle
  imports Main "HOL-Library.AList" "HOL-Library.Extended_Nat"
begin

section \<open>Strings as the source uses them\<close>

text \<open>
  The string primitives of the source (\<^verbatim>\<open>startsWith\<close>, \<^verbatim>\<open>split\<close>, \<^verbatim>\<open>substring\<close>,
  \<^verbatim>\<open>parseInt\<close> on a run of decimal digits) over character lists. A character
  beyond ASCII is written as the bytes of its UTF-8 form.
\<close>

definition startsWith :: "string \<Rightarrow> string \<Rightarrow> bool" where
  "startsWith p s = (take (length p) s = p)"

text \<open>\<^verbatim>\<open>s.split(c)\<close> for a one-character separator: never empty, keeps empty pieces.\<close>

fun split_chr :: "char \<Rightarrow> string \<Rightarrow> string list" where
  "split_chr c [] = [[]]"
| "split_chr c (x # xs) =
     (if x = c then [] # split_chr c xs
      else (case split_chr c xs of
              [] \<Rightarrow> [[x]]
            | w # ws \<Rightarrow> (x # w) # ws))"

definition isDigit :: "char \<Rightarrow> bool" where
  "isDigit c = (c \<in> set ''0123456789'')"

definition digitVal :: "char \<Rightarrow> nat" where
  "digitVal c = of_char c - 48"

section \<open>Numbers as the source has them\<close>

text \<open>
  The line numbers and counters of the parser are numbers of the source, that is
  double-precision values; here they are never negative and never fractional, so a
  number is a natural that a double can hold, or infinity: an \<open>enat\<close>. \<open>toDouble n\<close>
  is the double nearest to the natural \<open>n\<close>: a natural of at most 53 bits is
  itself; a longer one is cut to 53 significant bits and rounded to the nearest such
  value, to the even one of two equally near, and to infinity when the result would need
  more than 1024 bits. \<open>increment\<close> is \<^verbatim>\<open>x++\<close>: the sum \<open>x + 1\<close>, rounded.
\<close>

fun bitLength :: "nat \<Rightarrow> nat" where
  "bitLength n = (if n = 0 then 0 else Suc (bitLength (n div 2)))"

declare bitLength.simps [simp del]

definition toDouble :: "nat \<Rightarrow> enat" where
  "toDouble n =
     (if bitLength n \<le> 53 then enat n
      else
        (let q = 2 ^ (bitLength n - 53);
             m = n div q;
             r = n mod q;
             m' = (if q < 2 * r \<or> (2 * r = q \<and> odd m) then m + 1 else m)
         in if 1024 < bitLength (m' * q) then \<infinity> else enat (m' * q)))"

definition increment :: "enat \<Rightarrow> enat" where
  "increment x = (case x of enat n \<Rightarrow> toDouble (n + 1) | \<infinity> \<Rightarrow> \<infinity>)"

text \<open>\<^verbatim>\<open>parseInt\<close> on a string of decimal digits.\<close>

definition parseInt :: "string \<Rightarrow> enat" where
  "parseInt ds = toDouble (foldl (\<lambda>n c. 10 * n + digitVal c) 0 ds)"

section \<open>The hunk-header pattern\<close>

text \<open>
  \<^verbatim>\<open>line.match(/@@ -(\d+)(?:,(\d+))? \+(\d+)(?:,(\d+))? @@/)\<close>: an unanchored search,
  leftmost match first. Each \<^verbatim>\<open>\d+\<close> is followed in the pattern by a comma or a
  blank, neither of which is a digit, so the greedy run of digits is the only one that
  can lead to a match; and an optional group that was entered and failed cannot succeed
  when skipped, because the pattern then asks for a blank where the text has a comma.
  The matcher below therefore needs no backtracking.
\<close>

definition lit :: "string \<Rightarrow> string \<Rightarrow> string option" where
  "lit p s = (if startsWith p s then Some (drop (length p) s) else None)"

definition digits1 :: "string \<Rightarrow> (string \<times> string) option" where
  "digits1 s =
     (let d = takeWhile isDigit s
      in if d = [] then None else Some (d, dropWhile isDigit s))"

definition optCount :: "string \<Rightarrow> string option \<times> string" where
  "optCount s =
     (case lit '','' s of
        None \<Rightarrow> (None, s)
      | Some r \<Rightarrow>
          (case digits1 r of
             None \<Rightarrow> (None, s)
           | Some (d, r') \<Rightarrow> (Some d, r')))"

text \<open>The four capture groups of a match that starts at the head of the text.\<close>

definition matchAt :: "string \<Rightarrow> (string \<times> string option \<times> string \<times> string option) option" where
  "matchAt s =
     (case lit ''@@ -'' s of
        None \<Rightarrow> None
      | Some r1 \<Rightarrow>
     (case digits1 r1 of
        None \<Rightarrow> None
      | Some (g1, r2) \<Rightarrow>
     (case optCount r2 of (g2, r3) \<Rightarrow>
     (case lit '' +'' r3 of
        None \<Rightarrow> None
      | Some r4 \<Rightarrow>
     (case digits1 r4 of
        None \<Rightarrow> None
      | Some (g3, r5) \<Rightarrow>
     (case optCount r5 of (g4, r6) \<Rightarrow>
     (case lit '' @@'' r6 of
        None \<Rightarrow> None
      | Some _ \<Rightarrow> Some (g1, g2, g3, g4))))))))"

fun hunkMatch :: "string \<Rightarrow> (string \<times> string option \<times> string \<times> string option) option" where
  "hunkMatch [] = matchAt []"
| "hunkMatch (c # cs) =
     (case matchAt (c # cs) of
        Some g \<Rightarrow> Some g
      | None \<Rightarrow> hunkMatch cs)"

section \<open>The change model\<close>

datatype LineType = Add | Remove | Context

record DiffLine =
  ltype :: LineType
  content :: string
  oldLineNumber :: "enat option"
  newLineNumber :: "enat option"

record DiffHunk =
  oldStart :: enat
  oldCount :: enat
  newStart :: enat
  newCount :: enat
  lines :: "DiffLine list"

datatype FileStatus = Added | Modified | Deleted

text \<open>
  A file record; \<open>'h\<close> is what its hunk list holds. While the parser runs the list
  holds references to hunk objects (the source pushes the object \<^verbatim>\<open>currentHunk\<close>
  and may go on appending lines to it); the result holds the hunks themselves.
\<close>

record 'h ParsedDiff =
  filePath :: string
  status :: FileStatus
  hunks :: "'h list"
  addedLines :: enat
  removedLines :: enat

section \<open>parseDiffText\<close>

text \<open>
  The local variables of \<^verbatim>\<open>parseDiffText\<close>. Hunk objects live in \<open>store\<close>, a
  reference is an index into it. A file object is never touched after it has been pushed
  to \<^verbatim>\<open>parsedDiffs\<close> (the variable \<^verbatim>\<open>currentFile\<close> is overwritten at once), so
  files are kept by value.
\<close>

record ScanState =
  parsedDiffs :: "nat ParsedDiff list"
  currentFile :: "nat ParsedDiff option"
  currentHunk :: "nat option"
  oldLineNum :: enat
  newLineNum :: enat
  store :: "DiffHunk list"

definition initScan :: ScanState where
  "initScan = \<lparr>parsedDiffs = [], currentFile = None, currentHunk = None,
     oldLineNum = 0, newLineNum = 0, store = []\<rparr>"

text \<open>
  \<^verbatim>\<open>fileParts[3]?.substring(2) || fileParts[2]?.substring(2) || 'unknown'\<close>:
  a missing part and an empty string both fall through.
\<close>

definition headerPath :: "string \<Rightarrow> string" where
  "headerPath line =
     (let fileParts = split_chr CHR '' '' line;
          p3 = (if 3 < length fileParts then drop 2 (fileParts ! 3) else []);
          p2 = (if 2 < length fileParts then drop 2 (fileParts ! 2) else [])
      in if p3 \<noteq> [] then p3 else if p2 \<noteq> [] then p2 else ''unknown'')"

text \<open>The branch for a line that starts with \<^verbatim>\<open>diff --git\<close>.\<close>

definition fileHeader :: "ScanState \<Rightarrow> string \<Rightarrow> ScanState" where
  "fileHeader st line =
     (let st1 =
        (case currentFile st of
           None \<Rightarrow> st
         | Some f \<Rightarrow>
             (case currentHunk st of
                None \<Rightarrow> st\<lparr>parsedDiffs := parsedDiffs st @ [f]\<rparr>
              | Some h \<Rightarrow>
                  st\<lparr>parsedDiffs := parsedDiffs st @ [f\<lparr>hunks := hunks f @ [h]\<rparr>],
                     currentHunk := None\<rparr>))
      in st1\<lparr>currentFile :=
           Some \<lparr>filePath = headerPath line, status = Modified, hunks = [],
                 addedLines = 0, removedLines = 0\<rparr>\<rparr>)"

definition setStatus :: "FileStatus \<Rightarrow> ScanState \<Rightarrow> ScanState" where
  "setStatus s st =
     (case currentFile st of
        None \<Rightarrow> st
      | Some f \<Rightarrow> st\<lparr>currentFile := Some (f\<lparr>status := s\<rparr>)\<rparr>)"

text \<open>
  The branch for a line that starts with \<^verbatim>\<open>@@\<close>: the pending hunk is pushed to
  the current file, and only a line that matches the pattern replaces
  \<^verbatim>\<open>currentHunk\<close> by a new object.
\<close>

definition pushPending :: "ScanState \<Rightarrow> ScanState" where
  "pushPending st =
     (case (currentHunk st, currentFile st) of
        (Some h, Some f) \<Rightarrow> st\<lparr>currentFile := Some (f\<lparr>hunks := hunks f @ [h]\<rparr>)\<rparr>
      | _ \<Rightarrow> st)"

definition startHunk :: "enat \<Rightarrow> enat \<Rightarrow> enat \<Rightarrow> enat \<Rightarrow> ScanState \<Rightarrow> ScanState" where
  "startHunk os oc ns nc st =
     st\<lparr>currentHunk := Some (length (store st)),
        store := store st @
          [\<lparr>oldStart = os, oldCount = oc, newStart = ns, newCount = nc, lines = []\<rparr>],
        oldLineNum := os, newLineNum := ns\<rparr>"

definition hunkHeader :: "ScanState \<Rightarrow> string \<Rightarrow> ScanState" where
  "hunkHeader st line =
     (let st1 = pushPending st
      in case hunkMatch line of
           None \<Rightarrow> st1
         | Some (g1, g2, g3, g4) \<Rightarrow>
             startHunk (parseInt g1) (parseInt (case g2 of None \<Rightarrow> ''1'' | Some d \<Rightarrow> d))
               (parseInt g3) (parseInt (case g4 of None \<Rightarrow> ''1'' | Some d \<Rightarrow> d)) st1)"

definition pushLine :: "nat \<Rightarrow> DiffLine \<Rightarrow> DiffHunk list \<Rightarrow> DiffHunk list" where
  "pushLine h l hs = hs[h := (hs ! h)\<lparr>lines := lines (hs ! h) @ [l]\<rparr>]"

text \<open>The content lines, reached only with a current hunk and a current file.\<close>

definition contentLine :: "ScanState \<Rightarrow> string \<Rightarrow> ScanState" where
  "contentLine st line =
     (case (currentHunk st, currentFile st) of
        (Some h, Some f) \<Rightarrow>
          (if startsWith ''+'' line \<and> \<not> startsWith ''+++'' line then
             st\<lparr>store := pushLine h
                    \<lparr>ltype = Add, content = drop 1 line, oldLineNumber = None,
                      newLineNumber = Some (newLineNum st)\<rparr> (store st),
                currentFile := Some (f\<lparr>addedLines := increment (addedLines f)\<rparr>),
                newLineNum := increment (newLineNum st)\<rparr>
           else if startsWith ''-'' line \<and> \<not> startsWith ''---'' line then
             st\<lparr>store := pushLine h
                    \<lparr>ltype = Remove, content = drop 1 line,
                      oldLineNumber = Some (oldLineNum st), newLineNumber = None\<rparr> (store st),
                currentFile := Some (f\<lparr>removedLines := increment (removedLines f)\<rparr>),
                oldLineNum := increment (oldLineNum st)\<rparr>
           else if startsWith '' '' line then
             st\<lparr>store := pushLine h
                    \<lparr>ltype = Context, content = drop 1 line,
                      oldLineNumber = Some (oldLineNum st),
                      newLineNumber = Some (newLineNum st)\<rparr> (store st),
                oldLineNum := increment (oldLineNum st),
                newLineNum := increment (newLineNum st)\<rparr>
           else st)
      | _ \<Rightarrow> st)"

text \<open>One turn of the loop over the lines.\<close>

definition scanLine :: "ScanState \<Rightarrow> string \<Rightarrow> ScanState" where
  "scanLine st line =
     (if startsWith ''diff --git'' line then fileHeader st line
      else if startsWith ''new file mode'' line then setStatus Added st
      else if startsWith ''deleted file mode'' line then setStatus Deleted st
      else if startsWith ''@@'' line then hunkHeader st line
      else contentLine st line)"

text \<open>After the loop: the last file and its last hunk.\<close>

definition finish :: "ScanState \<Rightarrow> ScanState" where
  "finish st =
     (case currentFile st of
        None \<Rightarrow> st
      | Some f \<Rightarrow>
          (case currentHunk st of
             None \<Rightarrow> st\<lparr>parsedDiffs := parsedDiffs st @ [f]\<rparr>
           | Some h \<Rightarrow> st\<lparr>parsedDiffs := parsedDiffs st @ [f\<lparr>hunks := hunks f @ [h]\<rparr>]\<rparr>))"

text \<open>The returned array as a value: every hunk reference read from the store.\<close>

definition resolve :: "DiffHunk list \<Rightarrow> nat ParsedDiff \<Rightarrow> DiffHunk ParsedDiff" where
  "resolve hs f =
     \<lparr>filePath = filePath f, status = status f, hunks = map (\<lambda>h. hs ! h) (hunks f),
      addedLines = addedLines f, removedLines = removedLines f\<rparr>"

definition scanAll :: "string \<Rightarrow> ScanState" where
  "scanAll diffText = finish (foldl scanLine initScan (split_chr CHR 0x0A diffText))"

definition parseDiffText :: "string \<Rightarrow> DiffHunk ParsedDiff list" where
  "parseDiffText diffText =
     (if diffText = [] then []
      else (let st = scanAll diffText in map (resolve (store st)) (parsedDiffs st)))"

section \<open>What the claims count in a parsed file\<close>

definition countType :: "LineType \<Rightarrow> DiffHunk ParsedDiff \<Rightarrow> nat" where
  "countType t f = sum_list (map (\<lambda>h. length (filter (\<lambda>l. ltype l = t) (lines h))) (hunks f))"

definition oldNumbers :: "DiffHunk \<Rightarrow> enat option list" where
  "oldNumbers h =
     map oldLineNumber (filter (\<lambda>l. ltype l = Remove \<or> ltype l = Context) (lines h))"

definition newNumbers :: "DiffHunk \<Rightarrow> enat option list" where
  "newNumbers h =
     map newLineNumber (filter (\<lambda>l. ltype l = Add \<or> ltype l = Context) (lines h))"

section \<open>The repository collaborator\<close>

datatype error = Error string

record GitChange =
  fsPath :: string
  path :: string
  changeStatus :: nat

record Head =
  commit :: "string option"
  name :: "string option"

record RepoState =
  HEAD :: "Head option"
  workingTreeChanges :: "GitChange list"

text \<open>
  The repository object of the host. \<^verbatim>\<open>repo.diffBetween\<close> is called with two
  revisions (the list of changed files) and with two revisions and a path (the diff text
  of that file); \<open>diffBetween\<close> and \<open>diffBetweenPath\<close> are the two uses. A call that
  throws returns \<open>Inl\<close>.
\<close>

record Repository =
  state :: "RepoState option"
  diffBetween :: "string \<Rightarrow> string \<Rightarrow> error + GitChange list"
  diffBetweenPath :: "string \<Rightarrow> string \<Rightarrow> string \<Rightarrow> error + string"
  diffWithHEAD :: "string \<Rightarrow> error + string"

text \<open>
  What a handler does to the outside, in order. \<open>AcquisitionStarted\<close> records a call
  of \<^verbatim>\<open>analyzeNewCommit\<close> with its two revisions, \<open>ParserCalled\<close> a call of
  \<^verbatim>\<open>parseDiffText\<close> with its argument. Plain \<^verbatim>\<open>console.log\<close> lines are left out.
\<close>

datatype GitEffect =
    InvalidRepositoryLogged
  | CommitDetectedShown string string
  | AnalyzingShown
  | AcquisitionStarted string string
  | DiffErrorLogged string
  | NoDiffTextLogged
  | ParserCalled string
  | CommitAnalysisSent string string "DiffHunk ParsedDiff list"
  | AcquisitionErrorShown error
  | WorkingTreeErrorLogged error
  | WorkingTreeDiffsSent "(string \<times> nat \<times> string) list"

section \<open>analyzeNewCommit\<close>

text \<open>
  The loop over the changed files: \<open>acc\<close> is \<^verbatim>\<open>fullDiffText\<close> together with what
  has been written to the error console so far.
\<close>

fun collectDiffs ::
  "Repository \<Rightarrow> string \<Rightarrow> string \<Rightarrow> GitChange list \<Rightarrow> string \<times> GitEffect list
     \<Rightarrow> string \<times> GitEffect list" where
  "collectDiffs repo previousCommit newCommit [] acc = acc"
| "collectDiffs repo previousCommit newCommit (change # rest) (fullDiffText, logged) =
     (case diffBetweenPath repo previousCommit newCommit (fsPath change) of
        Inr fileDiff \<Rightarrow>
          collectDiffs repo previousCommit newCommit rest
            (fullDiffText @ fileDiff @ [CHR 0x0A], logged)
      | Inl diffError \<Rightarrow>
          collectDiffs repo previousCommit newCommit rest
            (fullDiffText, logged @ [DiffErrorLogged (fsPath change)]))"

definition analyzeNewCommit :: "Repository \<Rightarrow> string \<Rightarrow> string \<Rightarrow> GitEffect list" where
  "analyzeNewCommit repo previousCommit newCommit =
     AcquisitionStarted previousCommit newCommit #
     (case diffBetween repo previousCommit newCommit of
        Inl e \<Rightarrow> [AcquisitionErrorShown e]
      | Inr changedFiles \<Rightarrow>
          if changedFiles = [] then []
          else
            (case collectDiffs repo previousCommit newCommit changedFiles ([], []) of
               (fullDiffText, logged) \<Rightarrow>
                 if fullDiffText = [] then logged @ [NoDiffTextLogged]
                 else
                   (let parsedDiffs = parseDiffText fullDiffText
                    in logged @ [ParserCalled fullDiffText] @
                       (if parsedDiffs = [] then []
                        else [CommitAnalysisSent (take 8 previousCommit) (take 8 newCommit)
                                parsedDiffs]))))"

section \<open>handleRepositoryChange\<close>



text \<open>A string or \<^verbatim>\<open>null\<close> used as a condition: true for a string that is not empty.\<close>

definition truthy :: "string option \<Rightarrow> bool" where
  "truthy s = (case s of None \<Rightarrow> False | Some x \<Rightarrow> x \<noteq> [])"



text \<open>The calls of \<^verbatim>\<open>analyzeNewCommit\<close> in a run, and the calls of the parser.\<close>

fun acquisitions :: "GitEffect list \<Rightarrow> (string \<times> string) list" where
  "acquisitions [] = []"
| "acquisitions (AcquisitionStarted a b # es) = (a, b) # acquisitions es"
| "acquisitions (e # es) = acquisitions es"

fun parserCalls :: "GitEffect list \<Rightarrow> string list" where
  "parserCalls [] = []"
| "parserCalls (ParserCalled t # es) = t # parserCalls es"
| "parserCalls (e # es) = parserCalls es"

fun analysesSent :: "GitEffect list \<Rightarrow> DiffHunk ParsedDiff list list" where
  "analysesSent [] = []"
| "analysesSent (CommitAnalysisSent a b ds # es) = ds # analysesSent es"
| "analysesSent (e # es) = analysesSent es"

fun diffErrors :: "GitEffect list \<Rightarrow> string list" where
  "diffErrors [] = []"
| "diffErrors (DiffErrorLogged p # es) = p # diffErrors es"
| "diffErrors (e # es) = diffErrors es"

section \<open>The comment manager: data\<close>

text \<open>
  \<^verbatim>\<open>CodeReviewSuggestion\<close>. Its fields \<^verbatim>\<open>filePath\<close> and \<^verbatim>\<open>suggestion\<close> are
  \<open>suggestionPath\<close> and \<open>suggestionText\<close> here, the plain names being taken by the
  parsed file and by the thread data. \<^verbatim>\<open>CommentThreadData\<close> and the messages of a
  conversation follow; the time stamp of a message, which nothing reads, is left out.
\<close>

record CodeReviewSuggestion =
  suggestionPath :: string
  startLine :: int
  endLine :: int
  suggestionText :: string
  codeChange :: "string option"

record CodeReview =
  summary :: string
  suggestions :: "CodeReviewSuggestion list"

record ConversationMessage =
  author :: string
  message :: string

record CommentThreadData =
  suggestion :: CodeReviewSuggestion
  conversation :: "ConversationMessage list"
  isCollapsed :: bool

text \<open>The four arguments of \<^verbatim>\<open>new vscode.Range(...)\<close>.\<close>

record Range =
  startLn :: int
  startCh :: int
  endLn :: int
  endCh :: int

text \<open>
  The comments shown in a thread, by what they are made from; the markdown around
  the texts is presentation.
\<close>

datatype Comment =
    EnhancedComment CodeReviewSuggestion string
  | LoadingComment
  | ResponseComment string
  | FixComment string
  | ErrorComment string

text \<open>A comment thread of the host, with \<open>disposed\<close> set by \<^verbatim>\<open>thread.dispose()\<close>.\<close>

record CommentThread =
  uri :: string
  range_t :: "Range option"
  comments :: "Comment list"
  canReply :: bool
  contextValue :: string
  disposed :: bool

record WorkspaceEdit =
  editUri :: string
  editRange :: Range
  newText :: string

record LLMResponse =
  success :: bool
  responseMessage :: string
  responseCodeChange :: "string option"
  shouldRemove :: "bool option"

datatype CodeContext = ContextLines "(int \<times> string) list" | ContextUnavailable

record ConversationContext =
  originalSuggestion :: string
  contextPath :: string
  codeContext :: "CodeContext option"
  conversationHistory :: "ConversationMessage list"

text \<open>
  The collaborators of the comment manager: the workspace search, the generated thread
  identifiers (\<open>genId env k\<close> is the \<open>k\<close>-th identifier produced from the clock and the
  random source), the documents of the workspace as lists of lines, the edit service and
  the language model.
\<close>

record Env =
  findFiles :: "string \<Rightarrow> string list"
  genId :: "nat \<Rightarrow> string"
  openTextDocument :: "string \<Rightarrow> error + string list"
  applyEdit :: "WorkspaceEdit \<Rightarrow> error + bool"
  generateComprehensiveFix :: "ConversationContext \<Rightarrow> LLMResponse"
  handleConversationReply :: "string \<Rightarrow> ConversationContext \<Rightarrow> error + LLMResponse"

datatype Notice =
    NoCodeChangeAvailable
  | SuggestionApplied
  | ApplyFailed
  | ApplyError
  | MarkedUnderstood
  | UnableToProcessFix
  | GeneratingFix
  | NoSuggestionsFound
  | AddedComments nat

datatype UiEffect =
    ShowInformationMessage Notice
  | ShowErrorMessage Notice
  | FileNotFoundWarned string
  | EditRequested WorkspaceEdit
  | UnderstoodScheduled string

text \<open>
  The manager: the two maps of the class in insertion order, the thread objects the
  controller has created (a thread is referred to by its position in \<open>created\<close>), and
  the number of identifiers generated so far.
\<close>

record CommentManager =
  threads :: "(string \<times> nat) list"
  threadData :: "(string \<times> CommentThreadData) list"
  created :: "CommentThread list"
  generated :: nat

definition newManager :: CommentManager where
  "newManager = \<lparr>threads = [], threadData = [], created = [], generated = 0\<rparr>"

definition dispose :: "nat \<Rightarrow> CommentThread list \<Rightarrow> CommentThread list" where
  "dispose h ts = ts[h := (ts ! h)\<lparr>disposed := True\<rparr>]"

definition setComments :: "nat \<Rightarrow> Comment list \<Rightarrow> CommentThread list \<Rightarrow> CommentThread list" where
  "setComments h cs ts = ts[h := (ts ! h)\<lparr>comments := cs\<rparr>]"

section \<open>The comment manager: operations\<close>

definition clearAllComments :: "CommentManager \<Rightarrow> CommentManager" where
  "clearAllComments this =
     this\<lparr>created := foldl (\<lambda>ts (k, h). dispose h ts) (created this) (threads this),
          threads := [], threadData := []\<rparr>"

text \<open>The range computed from a suggestion in \<^verbatim>\<open>createAdvancedCommentThread\<close>.\<close>

definition suggestionRange :: "CodeReviewSuggestion \<Rightarrow> Range" where
  "suggestionRange s =
     (let startLine' = max 0 (startLine s - 1);
          endLine' = max 0 (endLine s - 1)
      in \<lparr>startLn = startLine', startCh = 0, endLn = endLine', endCh = 1024\<rparr>)"

definition contextValueOf :: "CodeReviewSuggestion \<Rightarrow> string" where
  "contextValueOf s =
     (if truthy (codeChange s) then ''codeowl-comment-with-change''
      else ''codeowl-comment-suggestion'')"

text \<open>The thread object and the thread data that a new thread starts with.\<close>

definition newThread :: "string \<Rightarrow> CodeReviewSuggestion \<Rightarrow> string \<Rightarrow> CommentThread" where
  "newThread fileUri s threadId =
     \<lparr>uri = fileUri, range_t = Some (suggestionRange s),
      comments = [EnhancedComment s threadId], canReply = False,
      contextValue = contextValueOf s, disposed = False\<rparr>"

definition initialData :: "CodeReviewSuggestion \<Rightarrow> CommentThreadData" where
  "initialData s =
     \<lparr>suggestion = s,
      conversation = [\<lparr>author = ''CodeOwl AI'', message = suggestionText s\<rparr>],
      isCollapsed = False\<rparr>"

definition createAdvancedCommentThread ::
  "Env \<Rightarrow> CodeReviewSuggestion \<Rightarrow> CommentManager \<Rightarrow> CommentManager \<times> UiEffect list" where
  "createAdvancedCommentThread env s this =
     (case findFiles env (suggestionPath s) of
        [] \<Rightarrow> (this, [FileNotFoundWarned (suggestionPath s)])
      | fileUri # _ \<Rightarrow>
          (let threadId = genId env (generated this);
               thread = newThread fileUri s threadId
           in (this\<lparr>created := created this @ [thread],
                    threads := AList.update threadId (length (created this)) (threads this),
                    threadData := AList.update threadId (initialData s) (threadData this),
                    generated := generated this + 1\<rparr>, [])))"

definition fileFound :: "Env \<Rightarrow> CodeReviewSuggestion \<Rightarrow> bool" where
  "fileFound env s = (findFiles env (suggestionPath s) \<noteq> [])"

fun createAll ::
  "Env \<Rightarrow> CodeReviewSuggestion list \<Rightarrow> CommentManager \<times> UiEffect list
     \<Rightarrow> CommentManager \<times> UiEffect list" where
  "createAll env [] acc = acc"
| "createAll env (s # rest) (this, out) =
     (case createAdvancedCommentThread env s this of
        (this', out') \<Rightarrow> createAll env rest (this', out @ out'))"

definition displayReviewsAsComments ::
  "Env \<Rightarrow> CodeReview \<Rightarrow> CommentManager \<Rightarrow> CommentManager \<times> UiEffect list" where
  "displayReviewsAsComments env review this =
     (let this1 = clearAllComments this
      in if suggestions review = [] then (this1, [ShowInformationMessage NoSuggestionsFound])
         else
           (case createAll env (suggestions review) (this1, []) of
              (this2, out) \<Rightarrow>
                (this2, out @ [ShowInformationMessage (AddedComments (length (suggestions review)))])))"

text \<open>
  The edit that \<^verbatim>\<open>applySuggestion\<close> builds once its first test has passed: the
  thread data, the thread, a replacement that is not empty and the range of the thread
  must all be there.
\<close>

definition pendingEdit :: "CommentManager \<Rightarrow> string \<Rightarrow> WorkspaceEdit option" where
  "pendingEdit this threadId =
     (case (map_of (threadData this) threadId, map_of (threads this) threadId) of
        (Some data, Some h) \<Rightarrow>
          (let thread = created this ! h
           in case (codeChange (suggestion data), range_t thread) of
                (Some change, Some r) \<Rightarrow>
                  if change = [] then None
                  else Some \<lparr>editUri = uri thread, editRange = r, newText = change\<rparr>
              | _ \<Rightarrow> None)
      | _ \<Rightarrow> None)"

definition removeThread :: "string \<Rightarrow> CommentManager \<Rightarrow> CommentManager" where
  "removeThread threadId this =
     (case map_of (threads this) threadId of
        None \<Rightarrow> this
      | Some h \<Rightarrow>
          this\<lparr>created := dispose h (created this),
               threads := AList.delete threadId (threads this),
               threadData := AList.delete threadId (threadData this)\<rparr>)"

definition applySuggestion ::
  "Env \<Rightarrow> string \<Rightarrow> CommentManager \<Rightarrow> CommentManager \<times> UiEffect list" where
  "applySuggestion env threadId this =
     (case pendingEdit this threadId of
        None \<Rightarrow> (this, [ShowErrorMessage NoCodeChangeAvailable])
      | Some edit \<Rightarrow>
          (case applyEdit env edit of
             Inr True \<Rightarrow>
               (removeThread threadId this,
                [EditRequested edit, ShowInformationMessage SuggestionApplied])
           | Inr False \<Rightarrow> (this, [EditRequested edit, ShowErrorMessage ApplyFailed])
           | Inl e \<Rightarrow> (this, [EditRequested edit, ShowErrorMessage ApplyError])))"

definition markAsUnderstood ::
  "string \<Rightarrow> CommentManager \<Rightarrow> CommentManager \<times> UiEffect list" where
  "markAsUnderstood threadId this =
     (case map_of (threads this) threadId of
        None \<Rightarrow> (this, [])
      | Some h \<Rightarrow> (removeThread threadId this, [ShowInformationMessage MarkedUnderstood]))"

text \<open>The lines around the suggestion that \<^verbatim>\<open>fixWithAI\<close> reads from the document.\<close>

definition readContext :: "Env \<Rightarrow> CommentThread \<Rightarrow> CodeReviewSuggestion \<Rightarrow> CodeContext" where
  "readContext env thread s =
     (case openTextDocument env (uri thread) of
        Inl e \<Rightarrow> ContextUnavailable
      | Inr doc \<Rightarrow>
          (let startLine' = max 0 (startLine s - 5);
               endLine' = min (int (length doc) - 1) (endLine s + 5)
           in ContextLines (map (\<lambda>i. (i + 1, doc ! nat i)) [startLine' .. endLine'])))"

text \<open>
  What \<^verbatim>\<open>fixWithAI\<close> works with once its first test has passed: the thread data and
  the thread registered under the identifier, and the answer of the language model to
  the request built from them.
\<close>

definition fixRequest ::
  "Env \<Rightarrow> CommentManager \<Rightarrow> string \<Rightarrow> (CommentThreadData \<times> nat \<times> LLMResponse) option" where
  "fixRequest env this threadId =
     (case (map_of (threadData this) threadId, map_of (threads this) threadId) of
        (Some data, Some h) \<Rightarrow>
          Some (data, h,
            generateComprehensiveFix env
              \<lparr>originalSuggestion = suggestionText (suggestion data),
               contextPath = suggestionPath (suggestion data),
               codeContext = Some (readContext env (created this ! h) (suggestion data)),
               conversationHistory = conversation data\<rparr>)
      | _ \<Rightarrow> None)"

definition fixWithAI ::
  "Env \<Rightarrow> string \<Rightarrow> CommentManager \<Rightarrow> CommentManager \<times> UiEffect list" where
  "fixWithAI env threadId this =
     (case fixRequest env this threadId of
        None \<Rightarrow> (this, [ShowErrorMessage UnableToProcessFix])
      | Some (data, h, response) \<Rightarrow>
          (let thread = created this ! h;
               loading = comments thread @ [LoadingComment];
               unloaded = butlast loading
           in if success response then
                (this\<lparr>created :=
                        setComments h (unloaded @ [FixComment (responseMessage response)])
                          (created this),
                      threadData :=
                        (if truthy (responseCodeChange response) then
                           AList.update threadId
                             (data\<lparr>suggestion :=
                                (suggestion data)\<lparr>codeChange := responseCodeChange response\<rparr>\<rparr>)
                             (threadData this)
                         else threadData this)\<rparr>,
                 [ShowInformationMessage GeneratingFix])
              else
                (this\<lparr>created :=
                        setComments h (unloaded @ [ErrorComment (responseMessage response)])
                          (created this)\<rparr>,
                 [ShowInformationMessage GeneratingFix])))"

definition getAIConversationResponse ::
  "Env \<Rightarrow> CommentThreadData \<Rightarrow> string \<Rightarrow> string \<times> bool" where
  "getAIConversationResponse env data userMessage =
     (let context = \<lparr>originalSuggestion = suggestionText (suggestion data),
                      contextPath = suggestionPath (suggestion data),
                      codeContext = None,
                      conversationHistory = conversation data\<rparr>
      in case handleConversationReply env userMessage context of
           Inl e \<Rightarrow>
             ([CHR 0xE2, CHR 0x9D, CHR 0x8C] @
              '' Error processing your message. Please try again.'', False)
         | Inr response \<Rightarrow>
             if success response then
               (responseMessage response,
                (case shouldRemove response of None \<Rightarrow> False | Some b \<Rightarrow> b))
             else (responseMessage response, False))"

definition handleUserReplyFromComment ::
  "Env \<Rightarrow> string \<Rightarrow> string \<Rightarrow> CommentManager \<Rightarrow> CommentManager \<times> UiEffect list" where
  "handleUserReplyFromComment env threadId replyText this =
     (case (map_of (threadData this) threadId, map_of (threads this) threadId) of
        (Some data, Some h) \<Rightarrow>
          (let data1 = data\<lparr>conversation :=
                         conversation data @ [\<lparr>author = ''User'', message = replyText\<rparr>]\<rparr>;
               thread = created this ! h;
               loading = comments thread @ [LoadingComment];
               aiResponse = getAIConversationResponse env data1 replyText;
               unloaded = butlast loading
           in if snd aiResponse then
                (this\<lparr>created := setComments h unloaded (created this),
                      threadData := AList.update threadId data1 (threadData this)\<rparr>,
                 [UnderstoodScheduled threadId])
              else
                (this\<lparr>created :=
                        setComments h (unloaded @ [ResponseComment (fst aiResponse)])
                          (created this),
                      threadData :=
                        AList.update threadId
                          (data1\<lparr>conversation :=
                             conversation data1 @
                               [\<lparr>author = ''CodeOwl AI'', message = fst aiResponse\<rparr>]\<rparr>)
                          (threadData this)\<rparr>,
                 []))
      | _ \<Rightarrow> (this, []))"

text \<open>The operations on threads, and one operation carried out.\<close>

datatype Operation =
    CreateThread CodeReviewSuggestion
  | Reply string string
  | FixWithAI string
  | Apply string
  | Resolve string
  | ClearAll

fun perform :: "Env \<Rightarrow> Operation \<Rightarrow> CommentManager \<Rightarrow> CommentManager" where
  "perform env (CreateThread s) this = fst (createAdvancedCommentThread env s this)"
| "perform env (Reply threadId replyText) this =
     fst (handleUserReplyFromComment env threadId replyText this)"
| "perform env (FixWithAI threadId) this = fst (fixWithAI env threadId this)"
| "perform env (Apply threadId) this = fst (applySuggestion env threadId this)"
| "perform env (Resolve threadId) this = fst (markAsUnderstood threadId this)"
| "perform env ClearAll this = clearAllComments this"

section \<open>Sample collaborators and inputs\<close>

text \<open>
  A repository at revision \<open>c\<close> whose change list between two revisions names two
  files, the first of which cannot be diffed.
\<close>

definition sampleChange :: "string \<Rightarrow> GitChange" where
  "sampleChange p = \<lparr>fsPath = p, path = p, changeStatus = 5\<rparr>"

definition sampleRepo :: "string option \<Rightarrow> Repository" where
  "sampleRepo c =
     \<lparr>state = Some \<lparr>HEAD = Some \<lparr>commit = c, name = None\<rparr>, workingTreeChanges = []\<rparr>,
      diffBetween = (\<lambda>a b. Inr [sampleChange ''a.txt'', sampleChange ''b.txt'']),
      diffBetweenPath =
        (\<lambda>a b p. if p = ''a.txt'' then Inl (Error ''unreadable'') else Inr ''diff --git a/b b/b''),
      diffWithHEAD = (\<lambda>p. Inl (Error ''none''))\<rparr>"

text \<open>
  A workspace with the one file \<^verbatim>\<open>/w/a.ts\<close> of three lines; \<open>ok\<close> is what the edit
  service answers, and the language model answers with the replacement \<^verbatim>\<open>fixed\<close>.
\<close>

definition sampleDocument :: "string list" where
  "sampleDocument = [''one'', ''two'', ''three'']"

definition sampleEnv :: "bool \<Rightarrow> Env" where
  "sampleEnv ok =
     \<lparr>findFiles = (\<lambda>p. if p = ''a.ts'' then [''/w/a.ts''] else []),
      genId = (\<lambda>k. replicate (Suc k) CHR ''i''),
      openTextDocument = (\<lambda>u. Inr sampleDocument),
      applyEdit = (\<lambda>e. Inr ok),
      generateComprehensiveFix =
        (\<lambda>c. \<lparr>success = True, responseMessage = ''use this'',
               responseCodeChange = Some ''fixed'', shouldRemove = None\<rparr>),
      handleConversationReply = (\<lambda>m c. Inl (Error ''offline''))\<rparr>"

definition sampleSuggestion :: "int \<Rightarrow> int \<Rightarrow> string option \<Rightarrow> CodeReviewSuggestion" where
  "sampleSuggestion a b c =
     \<lparr>suggestionPath = ''a.ts'', startLine = a, endLine = b, suggestionText = ''rename'',
      codeChange = c\<rparr>"

text \<open>The same collaborators with an identifier source that always gives \<^verbatim>\<open>i\<close>.\<close>

definition collidingEnv :: Env where
  "collidingEnv = (sampleEnv True)\<lparr>genId := (\<lambda>k. ''i'')\<rparr>"

text \<open>The manager after one thread has been created for a sample suggestion.\<close>

definition sampleManager :: "string option \<Rightarrow> CommentManager" where
  "sampleManager c =
     fst (createAdvancedCommentThread (sampleEnv True) (sampleSuggestion 2 3 c) newManager)"

text \<open>Every thread that the manager refers to is one the controller has created.\<close>

definition handlesValid :: "CommentManager \<Rightarrow> bool" where
  "handlesValid this = (\<forall>(k, h) \<in> set (threads this). h < length (created this))"

section \<open>The invariant of the parser loop\<close>

text \<open>
  A list of optional numbers counts up from \<open>s\<close>. Counting is exact as long as the
  numbers stay within \<open>exactLimit\<close>, the largest number up to which every natural is
  a double: \<open>sideOK\<close> says that the numbers given out on one side of a hunk count up
  from its start if the last of them is within the limit, \<open>counterOK\<close> that the
  counter of that side stands one past the last number if that is within the limit. A
  hunk is \<open>numbered\<close> when both its sides are in order; \<open>scanInv\<close> is what holds of
  the variables of \<^verbatim>\<open>parseDiffText\<close> before and after every line.
\<close>

definition countingFrom :: "enat \<Rightarrow> enat option list \<Rightarrow> bool" where
  "countingFrom s ns = (ns = map (\<lambda>i. Some (s + enat i)) [0 ..< length ns])"

definition exactLimit :: nat where
  "exactLimit = 9007199254740992"

definition sideOK :: "enat \<Rightarrow> enat option list \<Rightarrow> bool" where
  "sideOK s ns = (s + enat (length ns) \<le> enat (Suc exactLimit) \<longrightarrow> countingFrom s ns)"

definition counterOK :: "enat \<Rightarrow> enat option list \<Rightarrow> enat \<Rightarrow> bool" where
  "counterOK s ns c = (s + enat (length ns) \<le> enat exactLimit \<longrightarrow> c = s + enat (length ns))"

definition numbered :: "DiffHunk \<Rightarrow> bool" where
  "numbered h = (sideOK (oldStart h) (oldNumbers h) \<and> sideOK (newStart h) (newNumbers h))"

definition refsOK :: "DiffHunk list \<Rightarrow> nat ParsedDiff \<Rightarrow> bool" where
  "refsOK hs f = (\<forall>r \<in> set (hunks f). r < length hs)"

definition scanInv :: "ScanState \<Rightarrow> bool" where
  "scanInv st =
     ((\<forall>h \<in> set (store st). numbered h) \<and>
      (\<forall>f \<in> set (parsedDiffs st). refsOK (store st) f) \<and>
      (\<forall>f. currentFile st = Some f \<longrightarrow> refsOK (store st) f) \<and>
      (\<forall>r. currentHunk st = Some r \<longrightarrow>
         r < length (store st) \<and>
         counterOK (oldStart (store st ! r)) (oldNumbers (store st ! r)) (oldLineNum st) \<and>
         counterOK (newStart (store st ! r)) (newNumbers (store st ! r)) (newLineNum st)))"

section \<open>Scenario A\<close>

text \<open>
  C1: the text of scenario A (a file header for \<^verbatim>\<open>x.txt\<close>, one hunk header
  \<^verbatim>\<open>@@ -1,2 +1,3 @@\<close>, a context line, a removed line and two added lines, each line
  ended by a line feed) parses to exactly one file \<^verbatim>\<open>x.txt\<close> with status Modified and
  exactly one hunk with oldStart 1, oldCount 2, newStart 1, newCount 3, whose lines are
  Context "context" numbered 1 and 1, Remove "old" numbered 2, Add "new1" numbered 2 and
  Add "new2" numbered 3; addedLines is 2 and removedLines is 1.
\<close>

theorem scenario_A:
  "parseDiffText (''diff --git a/x.txt b/x.txt'' @ [CHR 0x0A] @ ''@@ -1,2 +1,3 @@'' @ [CHR 0x0A] @
      '' context'' @ [CHR 0x0A] @ ''-old'' @ [CHR 0x0A] @ ''+new1'' @ [CHR 0x0A] @
      ''+new2'' @ [CHR 0x0A]) =
   [\<lparr>filePath = ''x.txt'', status = Modified,
      hunks =
        [\<lparr>oldStart = 1, oldCount = 2, newStart = 1, newCount = 3,
           lines =
             [\<lparr>ltype = Context, content = ''context'',
                oldLineNumber = Some 1, newLineNumber = Some 1\<rparr>,
              \<lparr>ltype = Remove, content = ''old'',
                oldLineNumber = Some 2, newLineNumber = None\<rparr>,
              \<lparr>ltype = Add, content = ''new1'',
                oldLineNumber = None, newLineNumber = Some 2\<rparr>,
              \<lparr>ltype = Add, content = ''new2'',
                oldLineNumber = None, newLineNumber = Some 3\<rparr>]\<rparr>],
      addedLines = 2, removedLines = 1\<rparr>]"
  by code_simp

section \<open>A hunk header that does not match the pattern\<close>

text \<open>
  C2: the counters of a file should equal the numbers of Add and Remove lines over all
  its hunks, also when a line that starts with \<^verbatim>\<open>@@\<close> does not match the pattern.
  The code does otherwise on the text below (a file header, a good hunk header, one
  added line, then \<^verbatim>\<open>@@ garbage\<close>): the branch for \<^verbatim>\<open>@@\<close> pushes the pending
  hunk and, the pattern failing, leaves it pending, so the end of the input pushes the
  same hunk again. The file has addedLines 1 and two hunks with one Add line each.
\<close>

theorem counters_after_malformed_header:
  "map addedLines (parseDiffText (''diff --git a/x b/x'' @ [CHR 0x0A] @ ''@@ -1 +1 @@'' @
       [CHR 0x0A] @ ''+a'' @ [CHR 0x0A] @ ''@@ garbage'' @ [CHR 0x0A])) = [1] \<and>
   map (countType Add) (parseDiffText (''diff --git a/x b/x'' @ [CHR 0x0A] @ ''@@ -1 +1 @@'' @
       [CHR 0x0A] @ ''+a'' @ [CHR 0x0A] @ ''@@ garbage'' @ [CHR 0x0A])) = [2]"
  by code_simp

text \<open>
  C4: the parser should skip a hunk whose header is malformed and go on. On the text
  below the lines under \<^verbatim>\<open>@@ garbage\<close> are not skipped: \<^verbatim>\<open>+b\<close> is appended to the
  hunk that was open before, as its second added line, and that hunk is listed twice.
  The function itself is total: it is a fold of \<open>scanLine\<close> over the lines and has a
  value for every text.
\<close>

theorem lines_after_malformed_header:
  "parseDiffText (''diff --git a/x b/x'' @ [CHR 0x0A] @ ''@@ -1 +1 @@'' @ [CHR 0x0A] @
      ''+a'' @ [CHR 0x0A] @ ''@@ garbage'' @ [CHR 0x0A] @ ''+b'' @ [CHR 0x0A]) =
   [\<lparr>filePath = ''x'', status = Modified,
      hunks =
        [\<lparr>oldStart = 1, oldCount = 1, newStart = 1, newCount = 1,
           lines =
             [\<lparr>ltype = Add, content = ''a'', oldLineNumber = None, newLineNumber = Some 1\<rparr>,
              \<lparr>ltype = Add, content = ''b'', oldLineNumber = None, newLineNumber = Some 2\<rparr>]\<rparr>,
         \<lparr>oldStart = 1, oldCount = 1, newStart = 1, newCount = 1,
           lines =
             [\<lparr>ltype = Add, content = ''a'', oldLineNumber = None, newLineNumber = Some 1\<rparr>,
              \<lparr>ltype = Add, content = ''b'', oldLineNumber = None, newLineNumber = Some 2\<rparr>]\<rparr>],
      addedLines = 2, removedLines = 0\<rparr>]"
  by code_simp

section \<open>Lines the parser passes over\<close>

text \<open>
  A line that starts with none of the markers changes nothing, and so does a line that
  starts with \<^verbatim>\<open>@@\<close> and does not match the pattern while no hunk is pending.
\<close>

lemma unrecognised_line_ignored:
  assumes "\<not> startsWith ''diff --git'' line" and "\<not> startsWith ''new file mode'' line"
    and "\<not> startsWith ''deleted file mode'' line" and "\<not> startsWith ''@@'' line"
    and "\<not> startsWith ''+'' line" and "\<not> startsWith ''-'' line"
    and "\<not> startsWith '' '' line"
  shows "scanLine st line = st"
  using assms by (simp add: scanLine_def contentLine_def split: option.splits)

lemma malformed_header_without_hunk:
  assumes "\<not> startsWith ''diff --git'' line" and "\<not> startsWith ''new file mode'' line"
    and "\<not> startsWith ''deleted file mode'' line" and "startsWith ''@@'' line"
    and "hunkMatch line = None" and "currentHunk st = None"
  shows "scanLine st line = st"
  using assms by (simp add: scanLine_def hunkHeader_def pushPending_def)

section \<open>Counting with the numbers of the source\<close>

text \<open>
  A natural has at most \<open>k\<close> bits exactly when it is below \<open>2 ^ k\<close>; so every natural
  up to \<open>2 ^ 53\<close> is a number of the source, adding one is exact below \<open>2 ^ 53\<close>, and
  at \<open>2 ^ 53\<close> adding one gives \<open>2 ^ 53\<close> again.
\<close>

lemma bitLength_le: "bitLength n \<le> k \<longleftrightarrow> n < 2 ^ k"
proof (induction k arbitrary: n)
  case 0
  show ?case by (subst bitLength.simps) simp
next
  case (Suc k)
  have "bitLength n \<le> Suc k \<longleftrightarrow> n = 0 \<or> bitLength (n div 2) \<le> k"
    by (subst bitLength.simps) simp
  also have "\<dots> \<longleftrightarrow> n = 0 \<or> n div 2 < 2 ^ k" by (simp only: Suc.IH)
  also have "\<dots> \<longleftrightarrow> n < 2 ^ Suc k" by auto
  finally show ?case .
qed

lemma bitLength_2_53: "bitLength 9007199254740992 = 54"
  by (simp add: bitLength.simps)

lemma bitLength_2_53_1: "bitLength 9007199254740993 = 54"
  by (simp add: bitLength.simps)

lemma toDouble_exact: "n \<le> 9007199254740992 \<Longrightarrow> toDouble n = enat n"
proof (cases "n = 9007199254740992")
  case True
  then show ?thesis by (simp add: toDouble_def bitLength_2_53 Let_def)
next
  case False
  assume "n \<le> 9007199254740992"
  with False have "n < 2 ^ 53" by simp
  then have "bitLength n \<le> 53" by (simp only: bitLength_le)
  then show ?thesis by (simp add: toDouble_def)
qed

lemma increment_exact: "n < 9007199254740992 \<Longrightarrow> increment (enat n) = enat (Suc n)"
  by (simp add: increment_def toDouble_exact)

lemma increment_stalls: "increment (enat 9007199254740992) = enat 9007199254740992"
  by (simp add: increment_def toDouble_def bitLength_2_53 bitLength_2_53_1 Let_def)

lemma parseInt_exact:
  "foldl (\<lambda>n c. 10 * n + digitVal c) 0 ds \<le> 9007199254740992 \<Longrightarrow>
   parseInt ds = enat (foldl (\<lambda>n c. 10 * n + digitVal c) 0 ds)"
  by (simp add: parseInt_def toDouble_exact)

section \<open>Line numbers count up inside every hunk, within the limit\<close>

lemma sideOK_Nil: "sideOK s []"
  by (simp add: sideOK_def countingFrom_def)

lemma counterOK_Nil: "counterOK s [] s"
  by (simp add: counterOK_def zero_enat_def [symmetric])

lemma sideOK_snoc: "sideOK s ns \<Longrightarrow> counterOK s ns c \<Longrightarrow> sideOK s (ns @ [Some c])"
  by (cases s) (auto simp: sideOK_def counterOK_def countingFrom_def)

lemma counterOK_snoc: "counterOK s ns c \<Longrightarrow> counterOK s (ns @ [Some c]) (increment c)"
  by (cases s) (auto simp: counterOK_def exactLimit_def increment_exact)

lemma scanInv_init: "scanInv initScan"
  by (simp add: scanInv_def initScan_def)

lemma scanInv_fileHeader: "scanInv st \<Longrightarrow> scanInv (fileHeader st line)"
  by (auto simp: scanInv_def fileHeader_def Let_def refsOK_def split: option.splits)

lemma scanInv_setStatus: "scanInv st \<Longrightarrow> scanInv (setStatus s st)"
  by (auto simp: scanInv_def setStatus_def refsOK_def split: option.splits)

lemma scanInv_pushPending: "scanInv st \<Longrightarrow> scanInv (pushPending st)"
  by (auto simp: scanInv_def pushPending_def refsOK_def split: option.splits)

lemma scanInv_startHunk: "scanInv st \<Longrightarrow> scanInv (startHunk os oc ns nc st)"
  by (auto simp: scanInv_def startHunk_def refsOK_def nth_append numbered_def
        sideOK_Nil counterOK_Nil oldNumbers_def newNumbers_def intro: less_SucI)

lemma scanInv_hunkHeader: "scanInv st \<Longrightarrow> scanInv (hunkHeader st line)"
  by (auto simp: hunkHeader_def Let_def scanInv_pushPending scanInv_startHunk
        split: option.splits prod.splits)

lemma length_pushLine: "length (pushLine r l hs) = length hs"
  by (simp add: pushLine_def)

lemma set_pushLine:
  "r < length hs \<Longrightarrow> h \<in> set (pushLine r l hs) \<Longrightarrow>
     h \<in> set hs \<or> h = (hs ! r)\<lparr>lines := lines (hs ! r) @ [l]\<rparr>"
  unfolding pushLine_def by (auto dest: set_update_subset_insert [THEN subsetD])

lemma nth_pushLine:
  "r < length hs \<Longrightarrow> pushLine r l hs ! r = (hs ! r)\<lparr>lines := lines (hs ! r) @ [l]\<rparr>"
  by (simp add: pushLine_def)

lemma numbers_Add:
  "oldNumbers (h\<lparr>lines := lines h @
      [\<lparr>ltype = Add, content = c, oldLineNumber = a, newLineNumber = b\<rparr>]\<rparr>) = oldNumbers h"
  "newNumbers (h\<lparr>lines := lines h @
      [\<lparr>ltype = Add, content = c, oldLineNumber = a, newLineNumber = b\<rparr>]\<rparr>) = newNumbers h @ [b]"
  by (simp_all add: oldNumbers_def newNumbers_def)

lemma numbers_Remove:
  "oldNumbers (h\<lparr>lines := lines h @
      [\<lparr>ltype = Remove, content = c, oldLineNumber = a, newLineNumber = b\<rparr>]\<rparr>) = oldNumbers h @ [a]"
  "newNumbers (h\<lparr>lines := lines h @
      [\<lparr>ltype = Remove, content = c, oldLineNumber = a, newLineNumber = b\<rparr>]\<rparr>) = newNumbers h"
  by (simp_all add: oldNumbers_def newNumbers_def)

lemma numbers_Context:
  "oldNumbers (h\<lparr>lines := lines h @
      [\<lparr>ltype = Context, content = c, oldLineNumber = a, newLineNumber = b\<rparr>]\<rparr>) = oldNumbers h @ [a]"
  "newNumbers (h\<lparr>lines := lines h @
      [\<lparr>ltype = Context, content = c, oldLineNumber = a, newLineNumber = b\<rparr>]\<rparr>) = newNumbers h @ [b]"
  by (simp_all add: oldNumbers_def newNumbers_def)

lemma scanInv_pushed:
  assumes inv: "scanInv st"
    and cur: "currentHunk st = Some r" and fil: "currentFile st = Some f"
    and st': "store st' = pushLine r l (store st)"
      "parsedDiffs st' = parsedDiffs st" "currentHunk st' = Some r"
      "currentFile st' = Some f'" "hunks f' = hunks f"
    and num: "numbered ((store st ! r)\<lparr>lines := lines (store st ! r) @ [l]\<rparr>)"
    and old: "counterOK (oldStart (store st ! r))
        (oldNumbers ((store st ! r)\<lparr>lines := lines (store st ! r) @ [l]\<rparr>)) (oldLineNum st')"
    and new: "counterOK (newStart (store st ! r))
        (newNumbers ((store st ! r)\<lparr>lines := lines (store st ! r) @ [l]\<rparr>)) (newLineNum st')"
  shows "scanInv st'"
proof -
  from inv cur have r: "r < length (store st)" by (simp add: scanInv_def)
  have a: "\<forall>h \<in> set (store st'). numbered h"
  proof
    fix h assume "h \<in> set (store st')"
    then have "h \<in> set (store st) \<or> h = (store st ! r)\<lparr>lines := lines (store st ! r) @ [l]\<rparr>"
      using set_pushLine [OF r] st'(1) by simp
    then show "numbered h" using inv num by (auto simp: scanInv_def)
  qed
  have len: "length (store st') = length (store st)"
    by (simp add: st'(1) length_pushLine)
  have b: "\<forall>g \<in> set (parsedDiffs st'). refsOK (store st') g"
    using inv by (simp add: scanInv_def st'(2) refsOK_def len)
  have c: "refsOK (store st') f'"
    using inv fil by (simp add: scanInv_def refsOK_def len st'(5))
  have d: "store st' ! r = (store st ! r)\<lparr>lines := lines (store st ! r) @ [l]\<rparr>"
    by (simp add: st'(1) nth_pushLine [OF r])
  show ?thesis
    unfolding scanInv_def using a b c old new r d len by (simp add: st'(2-5))
qed

lemma scanInv_contentLine: "scanInv st \<Longrightarrow> scanInv (contentLine st line)"
proof -
  assume inv: "scanInv st"
  show ?thesis
  proof (cases "currentHunk st")
    case None
    with inv show ?thesis by (simp add: contentLine_def)
  next
    case (Some r)
    note cur = this
    show ?thesis
    proof (cases "currentFile st")
      case None
      with inv cur show ?thesis by (simp add: contentLine_def)
    next
      case (Some f)
      let ?h = "store st ! r"
      from inv cur have r: "r < length (store st)"
        and o: "counterOK (oldStart ?h) (oldNumbers ?h) (oldLineNum st)"
        and n: "counterOK (newStart ?h) (newNumbers ?h) (newLineNum st)"
        by (simp_all add: scanInv_def)
      from inv r have "numbered ?h" by (simp add: scanInv_def)
      then have so: "sideOK (oldStart ?h) (oldNumbers ?h)"
        and sn: "sideOK (newStart ?h) (newNumbers ?h)"
        by (simp_all add: numbered_def)
      consider (isAdd) "startsWith ''+'' line \<and> \<not> startsWith ''+++'' line"
        | (isRemove) "\<not> (startsWith ''+'' line \<and> \<not> startsWith ''+++'' line)"
            "startsWith ''-'' line \<and> \<not> startsWith ''---'' line"
        | (isContext) "\<not> (startsWith ''+'' line \<and> \<not> startsWith ''+++'' line)"
            "\<not> (startsWith ''-'' line \<and> \<not> startsWith ''---'' line)"
            "startsWith '' '' line"
        | (isOther) "\<not> (startsWith ''+'' line \<and> \<not> startsWith ''+++'' line)"
            "\<not> (startsWith ''-'' line \<and> \<not> startsWith ''---'' line)"
            "\<not> startsWith '' '' line"
        by blast
      then show ?thesis
      proof cases
        case isAdd
        let ?l = "\<lparr>ltype = Add, content = drop 1 line,
                oldLineNumber = None, newLineNumber = Some (newLineNum st)\<rparr>"
        show ?thesis
        proof (rule scanInv_pushed [OF inv cur Some, where l = ?l
                and f' = "f\<lparr>addedLines := increment (addedLines f)\<rparr>"])
          show "numbered (?h\<lparr>lines := lines ?h @ [?l]\<rparr>)"
            unfolding numbered_def numbers_Add using so sn n by (simp add: sideOK_snoc)
          show "counterOK (oldStart ?h) (oldNumbers (?h\<lparr>lines := lines ?h @ [?l]\<rparr>))
              (oldLineNum (contentLine st line))"
            unfolding numbers_Add using o by (simp add: contentLine_def cur Some isAdd)
          show "counterOK (newStart ?h) (newNumbers (?h\<lparr>lines := lines ?h @ [?l]\<rparr>))
              (newLineNum (contentLine st line))"
            unfolding numbers_Add using counterOK_snoc [OF n]
            by (simp add: contentLine_def cur Some isAdd)
        qed (simp_all add: contentLine_def cur Some isAdd)
      next
        case isRemove
        let ?l = "\<lparr>ltype = Remove, content = drop 1 line,
                oldLineNumber = Some (oldLineNum st), newLineNumber = None\<rparr>"
        show ?thesis
        proof (rule scanInv_pushed [OF inv cur Some, where l = ?l
                and f' = "f\<lparr>removedLines := increment (removedLines f)\<rparr>"])
          show "numbered (?h\<lparr>lines := lines ?h @ [?l]\<rparr>)"
            unfolding numbered_def numbers_Remove using so sn o by (simp add: sideOK_snoc)
          show "counterOK (oldStart ?h) (oldNumbers (?h\<lparr>lines := lines ?h @ [?l]\<rparr>))
              (oldLineNum (contentLine st line))"
            unfolding numbers_Remove using counterOK_snoc [OF o]
            by (simp add: contentLine_def cur Some isRemove)
          show "counterOK (newStart ?h) (newNumbers (?h\<lparr>lines := lines ?h @ [?l]\<rparr>))
              (newLineNum (contentLine st line))"
            unfolding numbers_Remove using n by (simp add: contentLine_def cur Some isRemove)
        qed (simp_all add: contentLine_def cur Some isRemove)
      next
        case isContext
        let ?l = "\<lparr>ltype = Context, content = drop 1 line,
                oldLineNumber = Some (oldLineNum st), newLineNumber = Some (newLineNum st)\<rparr>"
        show ?thesis
        proof (rule scanInv_pushed [OF inv cur Some, where l = ?l and f' = f])
          show "numbered (?h\<lparr>lines := lines ?h @ [?l]\<rparr>)"
            unfolding numbered_def numbers_Context using so sn o n by (simp add: sideOK_snoc)
          show "counterOK (oldStart ?h) (oldNumbers (?h\<lparr>lines := lines ?h @ [?l]\<rparr>))
              (oldLineNum (contentLine st line))"
            unfolding numbers_Context using counterOK_snoc [OF o]
            by (simp add: contentLine_def cur Some isContext)
          show "counterOK (newStart ?h) (newNumbers (?h\<lparr>lines := lines ?h @ [?l]\<rparr>))
              (newLineNum (contentLine st line))"
            unfolding numbers_Context using counterOK_snoc [OF n]
            by (simp add: contentLine_def cur Some isContext)
        qed (simp_all add: contentLine_def cur Some isContext)
      next
        case isOther
        with inv cur Some show ?thesis by (auto simp: contentLine_def)
      qed
    qed
  qed
qed

lemma scanInv_scanLine: "scanInv st \<Longrightarrow> scanInv (scanLine st line)"
  by (simp add: scanLine_def scanInv_fileHeader scanInv_setStatus scanInv_hunkHeader
        scanInv_contentLine)

lemma scanInv_foldl: "scanInv st \<Longrightarrow> scanInv (foldl scanLine st ls)"
  by (induction ls arbitrary: st) (simp_all add: scanInv_scanLine)

lemma scanInv_finish: "scanInv st \<Longrightarrow> scanInv (finish st)"
  by (auto simp: scanInv_def finish_def refsOK_def split: option.splits)

lemma scanInv_scanAll: "scanInv (scanAll diffText)"
  by (simp add: scanAll_def scanInv_finish scanInv_foldl scanInv_init)

lemma hunks_resolve: "hunks (resolve hs f) = map (\<lambda>h. hs ! h) (hunks f)"
  by (simp add: resolve_def)

text \<open>
  C3, as the claim words it, has the old line numbers of every hunk go up by one, for
  every text. The numbers of the source are doubles: on the text below, whose hunk
  starts at old line \<open>2 ^ 53 = 9007199254740992\<close> and has two removed lines, the counter
  does not move, and both lines get the number 9007199254740992.
\<close>

theorem numbers_stall_at_the_limit:
  "map (map oldNumbers \<circ> hunks) (parseDiffText (''diff --git a/x b/x'' @ [CHR 0x0A] @
      ''@@ -9007199254740992 +1 @@'' @ [CHR 0x0A] @ ''-p'' @ [CHR 0x0A] @ ''-q'' @ [CHR 0x0A])) =
   [[[Some 9007199254740992, Some 9007199254740992]]]"
  by (simp add: parseDiffText_def scanAll_def scanLine_def initScan_def fileHeader_def
        headerPath_def hunkHeader_def pushPending_def startHunk_def contentLine_def finish_def
        resolve_def pushLine_def startsWith_def matchAt_def lit_def digits1_def optCount_def
        isDigit_def digitVal_def parseInt_exact increment_exact increment_stalls
        oldNumbers_def Let_def zero_enat_def numeral_eq_enat)

text \<open>
  C3, amended: for every text and every hunk of every file that \<open>parseDiffText\<close>
  returns, if the old line numbers of the hunk stay within \<open>2 ^ 53\<close> (its oldStart plus
  the number of its Remove and Context lines is at most \<open>2 ^ 53 + 1\<close>), then the old line
  numbers of these lines, in order, are oldStart, oldStart + 1, and so on; and likewise
  for the new line numbers of the Add and Context lines, from newStart.
\<close>

theorem parsed_hunks_numbered_within_limit:
  "\<forall>f \<in> set (parseDiffText diffText). \<forall>h \<in> set (hunks f).
     (oldStart h + enat (length (oldNumbers h)) \<le> enat (2 ^ 53 + 1) \<longrightarrow>
        oldNumbers h = map (\<lambda>i. Some (oldStart h + enat i)) [0 ..< length (oldNumbers h)]) \<and>
     (newStart h + enat (length (newNumbers h)) \<le> enat (2 ^ 53 + 1) \<longrightarrow>
        newNumbers h = map (\<lambda>i. Some (newStart h + enat i)) [0 ..< length (newNumbers h)])"
proof (intro ballI)
  fix f h
  assume f: "f \<in> set (parseDiffText diffText)" and h: "h \<in> set (hunks f)"
  let ?st = "scanAll diffText"
  from f obtain g where g: "g \<in> set (parsedDiffs ?st)" and fg: "f = resolve (store ?st) g"
    by (auto simp: parseDiffText_def Let_def split: if_splits)
  from h fg obtain r where r: "r \<in> set (hunks g)" and hr: "h = store ?st ! r"
    by (auto simp: hunks_resolve)
  have inv: "scanInv ?st" by (rule scanInv_scanAll)
  from inv g r have "r < length (store ?st)" by (auto simp: scanInv_def refsOK_def)
  with hr have "h \<in> set (store ?st)" by simp
  with inv have "numbered h" by (simp add: scanInv_def)
  moreover have "(2::nat) ^ 53 + 1 = Suc exactLimit" by (simp add: exactLimit_def)
  ultimately show "(oldStart h + enat (length (oldNumbers h)) \<le> enat (2 ^ 53 + 1) \<longrightarrow>
        oldNumbers h = map (\<lambda>i. Some (oldStart h + enat i)) [0 ..< length (oldNumbers h)]) \<and>
     (newStart h + enat (length (newNumbers h)) \<le> enat (2 ^ 53 + 1) \<longrightarrow>
        newNumbers h = map (\<lambda>i. Some (newStart h + enat i)) [0 ..< length (newNumbers h)])"
    by (simp add: numbered_def sideOK_def countingFrom_def)
qed

theorem parsed_hunks_numbered_within_limit_witness:
  "(\<exists>f \<in> set (parseDiffText (''diff --git a/x b/x'' @ [CHR 0x0A] @ ''@@ -4,2 +7 @@'' @
        [CHR 0x0A] @ ''-p'' @ [CHR 0x0A] @ '' q'' @ [CHR 0x0A])).
      \<exists>h \<in> set (hunks f).
        oldStart h + enat (length (oldNumbers h)) \<le> enat (2 ^ 53 + 1) \<and>
        newStart h + enat (length (newNumbers h)) \<le> enat (2 ^ 53 + 1) \<and>
        oldNumbers h = [Some 4, Some 5] \<and> newNumbers h = [Some 7])"
proof -
  let ?t = "''diff --git a/x b/x'' @ [CHR 0x0A] @ ''@@ -4,2 +7 @@'' @
        [CHR 0x0A] @ ''-p'' @ [CHR 0x0A] @ '' q'' @ [CHR 0x0A]"
  have p: "parseDiffText ?t = [\<lparr>filePath = ''x'', status = Modified, hunks =
     [\<lparr>oldStart = 4, oldCount = 2, newStart = 7, newCount = 1,
       lines = [\<lparr>ltype = Remove, content = ''p'', oldLineNumber = Some 4, newLineNumber = None\<rparr>,
         \<lparr>ltype = Context, content = ''q'', oldLineNumber = Some 5, newLineNumber = Some 7\<rparr>]\<rparr>],
     addedLines = 0, removedLines = 1\<rparr>]"
    by code_simp
  show ?thesis
    using parsed_hunks_numbered_within_limit [of ?t] unfolding p
    by (simp add: oldNumbers_def newNumbers_def numeral_eq_enat)
qed

section \<open>Acquisition of the changes between two revisions\<close>


lemma parserCalls_append: "parserCalls (xs @ ys) = parserCalls xs @ parserCalls ys"
  by (induction xs rule: parserCalls.induct) simp_all

lemma analysesSent_append: "analysesSent (xs @ ys) = analysesSent xs @ analysesSent ys"
  by (induction xs rule: analysesSent.induct) simp_all

lemma diffErrors_append: "diffErrors (xs @ ys) = diffErrors xs @ diffErrors ys"
  by (induction xs rule: diffErrors.induct) simp_all

lemma collectDiffs_text:
  "fst (collectDiffs repo p n cs (t, l)) =
     t @ concat (map (\<lambda>c. case diffBetweenPath repo p n (fsPath c) of
                          Inr d \<Rightarrow> d @ [CHR 0x0A] | Inl e \<Rightarrow> []) cs)"
  by (induction cs arbitrary: t l) (simp_all split: sum.splits)

lemma collectDiffs_logged:
  "snd (collectDiffs repo p n cs (t, l)) =
     l @ map (\<lambda>c. DiffErrorLogged (fsPath c))
           (filter (\<lambda>c. isl (diffBetweenPath repo p n (fsPath c))) cs)"
  by (induction cs arbitrary: t l) (simp_all split: sum.splits)

lemma observers_of_logged:
  "acquisitions (map (\<lambda>c. DiffErrorLogged (f c)) cs) = []"
  "parserCalls (map (\<lambda>c. DiffErrorLogged (f c)) cs) = []"
  "analysesSent (map (\<lambda>c. DiffErrorLogged (f c)) cs) = []"
  "diffErrors (map (\<lambda>c. DiffErrorLogged (f c)) cs) = map f cs"
  by (induction cs) simp_all

lemma gathered_empty_iff:
  "concat (map (\<lambda>c. case g c of Inr d \<Rightarrow> d @ [CHR 0x0A] | Inl e \<Rightarrow> []) cs) = [] \<longleftrightarrow>
     (\<forall>c \<in> set cs. isl (g c))"
  by (induction cs) (auto split: sum.splits)

text \<open>
  C6: when the list of changed files between two revisions has been obtained and is
  not empty, the text handed on is the concatenation, in the order of the list, of the
  diff texts that could be retrieved, each followed by a line feed; every file whose
  diff could not be retrieved is logged and left out, the others are still asked for;
  the text is empty exactly when no diff could be retrieved, and then the parser is not
  called and nothing is sent on; otherwise the parser is called once, with that text.
\<close>

theorem acquisition_gathers_file_diffs:
  assumes "diffBetween repo previousCommit newCommit = Inr changedFiles"
    and "changedFiles \<noteq> []"
  shows
    "let got = (\<lambda>c. diffBetweenPath repo previousCommit newCommit (fsPath c));
         gathered = concat (map (\<lambda>c. case got c of Inr d \<Rightarrow> d @ [CHR 0x0A] | Inl e \<Rightarrow> [])
                      changedFiles);
         effects = analyzeNewCommit repo previousCommit newCommit
     in fst (collectDiffs repo previousCommit newCommit changedFiles ([], [])) = gathered \<and>
        diffErrors effects = map fsPath (filter (\<lambda>c. isl (got c)) changedFiles) \<and>
        (gathered = [] \<longleftrightarrow> (\<forall>c \<in> set changedFiles. isl (got c))) \<and>
        (gathered = [] \<longrightarrow> parserCalls effects = [] \<and> analysesSent effects = []) \<and>
        (gathered \<noteq> [] \<longrightarrow> parserCalls effects = [gathered])"
proof -
  let ?got = "\<lambda>c. diffBetweenPath repo previousCommit newCommit (fsPath c)"
  let ?g = "concat (map (\<lambda>c. case ?got c of Inr d \<Rightarrow> d @ [CHR 0x0A] | Inl e \<Rightarrow> []) changedFiles)"
  let ?l = "map (\<lambda>c. DiffErrorLogged (fsPath c)) (filter (\<lambda>c. isl (?got c)) changedFiles)"
  have c: "collectDiffs repo previousCommit newCommit changedFiles ([], []) = (?g, ?l)"
    using collectDiffs_text [of repo previousCommit newCommit changedFiles "[]" "[]"]
      collectDiffs_logged [of repo previousCommit newCommit changedFiles "[]" "[]"]
    by (simp add: prod_eq_iff)
  have e: "analyzeNewCommit repo previousCommit newCommit =
     AcquisitionStarted previousCommit newCommit #
       (if ?g = [] then ?l @ [NoDiffTextLogged]
        else ?l @ [ParserCalled ?g] @
          (if parseDiffText ?g = [] then []
           else [CommitAnalysisSent (take 8 previousCommit) (take 8 newCommit) (parseDiffText ?g)]))"
    using assms by (simp add: analyzeNewCommit_def c Let_def)
  have 1: "fst (collectDiffs repo previousCommit newCommit changedFiles ([], [])) = ?g"
    by (simp add: c)
  have 2: "diffErrors (analyzeNewCommit repo previousCommit newCommit) =
      map fsPath (filter (\<lambda>c. isl (?got c)) changedFiles)"
    unfolding e by (simp add: diffErrors_append observers_of_logged)
  have 3: "?g = [] \<longleftrightarrow> (\<forall>c \<in> set changedFiles. isl (?got c))"
    by (rule gathered_empty_iff)
  have 4: "?g = [] \<longrightarrow> parserCalls (analyzeNewCommit repo previousCommit newCommit) = [] \<and>
      analysesSent (analyzeNewCommit repo previousCommit newCommit) = []"
    unfolding e by (simp add: parserCalls_append analysesSent_append observers_of_logged)
  have 5: "?g \<noteq> [] \<longrightarrow> parserCalls (analyzeNewCommit repo previousCommit newCommit) = [?g]"
    unfolding e by (simp add: parserCalls_append observers_of_logged)
  show ?thesis unfolding Let_def using 1 2 3 4 5 by blast
qed

theorem acquisition_gathers_file_diffs_witness:
  "diffBetween (sampleRepo None) ''r1'' ''r2'' = Inr [sampleChange ''a.txt'', sampleChange ''b.txt''] \<and>
   [sampleChange ''a.txt'', sampleChange ''b.txt''] \<noteq> [] \<and>
   fst (collectDiffs (sampleRepo None) ''r1'' ''r2'' [sampleChange ''a.txt'', sampleChange ''b.txt'']
          ([], [])) = ''diff --git a/b b/b'' @ [CHR 0x0A] \<and>
   diffErrors (analyzeNewCommit (sampleRepo None) ''r1'' ''r2'') = [''a.txt''] \<and>
   parserCalls (analyzeNewCommit (sampleRepo None) ''r1'' ''r2'') = [''diff --git a/b b/b'' @ [CHR 0x0A]]"
proof -
  have d: "diffBetween (sampleRepo None) ''r1'' ''r2'' =
      Inr [sampleChange ''a.txt'', sampleChange ''b.txt'']"
    by (simp add: sampleRepo_def)
  have n: "[sampleChange ''a.txt'', sampleChange ''b.txt''] \<noteq> []" by simp
  show ?thesis
    using acquisition_gathers_file_diffs [OF d n] d
    by (simp add: Let_def sampleRepo_def sampleChange_def)
qed

section \<open>The commit watcher\<close>








section \<open>The range of a new thread\<close>




section \<open>Applying a suggestion\<close>

lemma pendingEdit_Some_iff:
  "pendingEdit this threadId = Some edit \<longleftrightarrow>
     (\<exists>data h change r.
        map_of (threadData this) threadId = Some data \<and>
        map_of (threads this) threadId = Some h \<and>
        codeChange (suggestion data) = Some change \<and> change \<noteq> [] \<and>
        range_t (created this ! h) = Some r \<and>
        edit = \<lparr>editUri = uri (created this ! h), editRange = r, newText = change\<rparr>)"
  by (auto simp: pendingEdit_def Let_def split: option.splits)

lemma removeThread_maps:
  "map_of (threads this) threadId = Some h \<Longrightarrow>
     map_of (threads (removeThread threadId this)) = (map_of (threads this))(threadId := None) \<and>
     map_of (threadData (removeThread threadId this)) =
       (map_of (threadData this))(threadId := None) \<and>
     created (removeThread threadId this) = dispose h (created this) \<and>
     generated (removeThread threadId this) = generated this"
  by (simp add: removeThread_def delete_conv')

lemma sampleManager_eq:
  "sampleManager c =
   \<lparr>threads = [(''i'', 0)],
    threadData = [(''i'', initialData (sampleSuggestion 2 3 c))],
    created = [newThread ''/w/a.ts'' (sampleSuggestion 2 3 c) ''i''],
    generated = 1\<rparr>"
  by (simp add: sampleManager_def createAdvancedCommentThread_def sampleEnv_def
        sampleSuggestion_def newManager_def Let_def)

lemma sample_pendingEdit:
  "pendingEdit (sampleManager (Some ''x'')) ''i'' =
     Some \<lparr>editUri = ''/w/a.ts'',
       editRange = \<lparr>startLn = 1, startCh = 0, endLn = 2, endCh = 1024\<rparr>, newText = ''x''\<rparr>"
  by (simp add: pendingEdit_def sampleManager_eq initialData_def newThread_def
        sampleSuggestion_def suggestionRange_def Let_def)

text \<open>
  C8: \<open>applySuggestion\<close> has an edit to ask for exactly when the thread data and the
  thread are registered under the identifier, the suggestion has a replacement that is
  not empty and the thread has a range; the edit then replaces that range of the
  thread's file by the replacement. Without such an edit, or when the edit service
  answers anything but success, the manager is left as it was (so the thread stays
  registered) and an error message is shown. When the edit service reports success, the
  identifier is removed from both maps, the thread is disposed, and the success message
  is shown.
\<close>

theorem apply_all_or_nothing:
  "(pendingEdit this threadId = Some edit \<longleftrightarrow>
      (\<exists>data h change r.
         map_of (threadData this) threadId = Some data \<and>
         map_of (threads this) threadId = Some h \<and>
         codeChange (suggestion data) = Some change \<and> change \<noteq> [] \<and>
         range_t (created this ! h) = Some r \<and>
         edit = \<lparr>editUri = uri (created this ! h), editRange = r, newText = change\<rparr>)) \<and>
   (pendingEdit this threadId = None \<longrightarrow>
      applySuggestion env threadId this = (this, [ShowErrorMessage NoCodeChangeAvailable])) \<and>
   (pendingEdit this threadId = Some edit \<and> applyEdit env edit \<noteq> Inr True \<longrightarrow>
      fst (applySuggestion env threadId this) = this \<and>
      (snd (applySuggestion env threadId this) = [EditRequested edit, ShowErrorMessage ApplyFailed] \<or>
       snd (applySuggestion env threadId this) = [EditRequested edit, ShowErrorMessage ApplyError])) \<and>
   (pendingEdit this threadId = Some edit \<and> applyEdit env edit = Inr True \<longrightarrow>
      snd (applySuggestion env threadId this) =
        [EditRequested edit, ShowInformationMessage SuggestionApplied] \<and>
      map_of (threads (fst (applySuggestion env threadId this))) =
        (map_of (threads this))(threadId := None) \<and>
      map_of (threadData (fst (applySuggestion env threadId this))) =
        (map_of (threadData this))(threadId := None) \<and>
      (\<exists>h. map_of (threads this) threadId = Some h \<and>
         created (fst (applySuggestion env threadId this)) = dispose h (created this)))"
proof (intro conjI impI)
  show "pendingEdit this threadId = Some edit \<longleftrightarrow>
      (\<exists>data h change r.
         map_of (threadData this) threadId = Some data \<and>
         map_of (threads this) threadId = Some h \<and>
         codeChange (suggestion data) = Some change \<and> change \<noteq> [] \<and>
         range_t (created this ! h) = Some r \<and>
         edit = \<lparr>editUri = uri (created this ! h), editRange = r, newText = change\<rparr>)"
    by (rule pendingEdit_Some_iff)
next
  assume "pendingEdit this threadId = None"
  then show "applySuggestion env threadId this = (this, [ShowErrorMessage NoCodeChangeAvailable])"
    by (simp add: applySuggestion_def)
next
  assume a: "pendingEdit this threadId = Some edit \<and> applyEdit env edit \<noteq> Inr True"
  then show "fst (applySuggestion env threadId this) = this"
    by (auto simp: applySuggestion_def split: sum.splits bool.splits)
  from a show "snd (applySuggestion env threadId this) = [EditRequested edit, ShowErrorMessage ApplyFailed] \<or>
       snd (applySuggestion env threadId this) = [EditRequested edit, ShowErrorMessage ApplyError]"
    by (auto simp: applySuggestion_def split: sum.splits bool.splits)
next
  assume a: "pendingEdit this threadId = Some edit \<and> applyEdit env edit = Inr True"
  then have r: "applySuggestion env threadId this =
      (removeThread threadId this, [EditRequested edit, ShowInformationMessage SuggestionApplied])"
    by (simp add: applySuggestion_def)
  from a obtain h where h: "map_of (threads this) threadId = Some h"
    by (auto simp: pendingEdit_Some_iff)
  show "snd (applySuggestion env threadId this) =
        [EditRequested edit, ShowInformationMessage SuggestionApplied]"
    by (simp add: r)
  show "map_of (threads (fst (applySuggestion env threadId this))) =
        (map_of (threads this))(threadId := None)"
    using removeThread_maps [OF h] by (simp add: r)
  show "map_of (threadData (fst (applySuggestion env threadId this))) =
        (map_of (threadData this))(threadId := None)"
    using removeThread_maps [OF h] by (simp add: r)
  show "\<exists>h. map_of (threads this) threadId = Some h \<and>
         created (fst (applySuggestion env threadId this)) = dispose h (created this)"
    using removeThread_maps [OF h] h by (simp add: r)
qed

theorem apply_all_or_nothing_witness:
  "pendingEdit (sampleManager None) ''i'' = None \<and>
   applySuggestion (sampleEnv True) ''i'' (sampleManager None) =
     (sampleManager None, [ShowErrorMessage NoCodeChangeAvailable]) \<and>
   pendingEdit (sampleManager (Some ''x'')) ''i'' =
     Some \<lparr>editUri = ''/w/a.ts'',
       editRange = \<lparr>startLn = 1, startCh = 0, endLn = 2, endCh = 1024\<rparr>, newText = ''x''\<rparr> \<and>
   fst (applySuggestion (sampleEnv False) ''i'' (sampleManager (Some ''x''))) =
     sampleManager (Some ''x'') \<and>
   map_of (threads (fst (applySuggestion (sampleEnv True) ''i'' (sampleManager (Some ''x''))))) ''i''
     = None \<and>
   map_of (threadData (fst (applySuggestion (sampleEnv True) ''i'' (sampleManager (Some ''x''))))) ''i''
     = None"
proof -
  let ?e = "\<lparr>editUri = ''/w/a.ts'',
       editRange = \<lparr>startLn = 1, startCh = 0, endLn = 2, endCh = 1024\<rparr>, newText = ''x''\<rparr>"
  have n: "pendingEdit (sampleManager None) ''i'' = None"
    by (simp add: pendingEdit_def sampleManager_eq initialData_def newThread_def
        sampleSuggestion_def Let_def)
  have ok: "applyEdit (sampleEnv True) ?e = Inr True" by (simp add: sampleEnv_def)
  have no: "applyEdit (sampleEnv False) ?e \<noteq> Inr True" by (simp add: sampleEnv_def)
  show ?thesis
    using apply_all_or_nothing [of "sampleManager None" "''i''" ?e "sampleEnv True"]
      apply_all_or_nothing [of "sampleManager (Some ''x'')" "''i''" ?e "sampleEnv False"]
      apply_all_or_nothing [of "sampleManager (Some ''x'')" "''i''" ?e "sampleEnv True"]
      n ok no sample_pendingEdit
    by simp
qed

section \<open>What the operations do to a stored suggestion\<close>











section \<open>Displaying a new review\<close>

lemma update_fresh: "k \<notin> fst ` set al \<Longrightarrow> AList.update k v al = al @ [(k, v)]"
  by (induction al) auto

lemma length_dispose: "length (dispose h ts) = length ts"
  by (simp add: dispose_def)

lemma disposed_dispose:
  "i < length ts \<Longrightarrow> disposed (dispose h ts ! i) = (i = h \<or> disposed (ts ! i))"
  by (cases "i = h") (simp_all add: dispose_def)

lemma length_disposeAll:
  "length (foldl (\<lambda>ts (k, h). dispose h ts) ts xs) = length ts"
  by (induction xs arbitrary: ts) (auto simp: length_dispose)

lemma disposeAll_keeps:
  "i < length ts \<Longrightarrow> disposed (ts ! i) \<Longrightarrow>
     disposed (foldl (\<lambda>ts (k, h). dispose h ts) ts xs ! i)"
  by (induction xs arbitrary: ts) (auto simp: length_dispose disposed_dispose)

lemma disposeAll_hits:
  "(k, h) \<in> set xs \<Longrightarrow> h < length ts \<Longrightarrow>
     disposed (foldl (\<lambda>ts (k, h). dispose h ts) ts xs ! h)"
proof (induction xs arbitrary: ts)
  case Nil
  then show ?case by simp
next
  case (Cons x xs)
  show ?case
  proof (cases "x = (k, h)")
    case True
    have "disposed (dispose h ts ! h)" using Cons.prems(2) by (simp add: disposed_dispose)
    then show ?thesis
      using True Cons.prems(2) disposeAll_keeps [of h "dispose h ts" xs]
      by (simp add: length_dispose)
  next
    case False
    with Cons.prems have "(k, h) \<in> set xs" by simp
    from Cons.IH [OF this, of "dispose (snd x) ts"] Cons.prems(2)
    show ?thesis by (simp add: length_dispose split_beta)
  qed
qed

lemma createAll_lists:
  assumes "distinct (map fst (threads m) @
             map (genId env) [generated m ..< generated m + length (filter (fileFound env) ss)])"
    and "map fst (threadData m) = map fst (threads m)"
  shows "threads (fst (createAll env ss (m, out))) =
           threads m @ zip (map (genId env)
               [generated m ..< generated m + length (filter (fileFound env) ss)])
             [length (created m) ..< length (created m) + length (filter (fileFound env) ss)] \<and>
         threadData (fst (createAll env ss (m, out))) =
           threadData m @ zip (map (genId env)
               [generated m ..< generated m + length (filter (fileFound env) ss)])
             (map initialData (filter (fileFound env) ss)) \<and>
         generated (fst (createAll env ss (m, out))) =
           generated m + length (filter (fileFound env) ss) \<and>
         length (created (fst (createAll env ss (m, out)))) =
           length (created m) + length (filter (fileFound env) ss) \<and>
         take (length (created m)) (created (fst (createAll env ss (m, out)))) = created m \<and>
         drop (length (created m)) (created (fst (createAll env ss (m, out)))) =
           map (\<lambda>(s, k). newThread (hd (findFiles env (suggestionPath s))) s (genId env k))
             (zip (filter (fileFound env) ss)
                [generated m ..< generated m + length (filter (fileFound env) ss)]) \<and>
         (\<forall>h. length (created m) \<le> h \<and> h < length (created (fst (createAll env ss (m, out))))
            \<longrightarrow> \<not> disposed (created (fst (createAll env ss (m, out))) ! h))"
  using assms
proof (induction ss arbitrary: m out)
  case Nil
  then show ?case by auto
next
  case (Cons s ss)
  show ?case
  proof (cases "fileFound env s")
    case False
    then have "createAdvancedCommentThread env s m = (m, [FileNotFoundWarned (suggestionPath s)])"
      by (simp add: fileFound_def createAdvancedCommentThread_def)
    with False Cons show ?thesis by simp
  next
    case True
    note upt_Suc [simp del]
    let ?n = "length (filter (fileFound env) ss)"
    let ?g = "generated m"
    let ?c = "length (created m)"
    obtain fileUri others where f: "findFiles env (suggestionPath s) = fileUri # others"
      using True by (auto simp: fileFound_def neq_Nil_conv)
    let ?m1 = "m\<lparr>created := created m @ [newThread fileUri s (genId env ?g)],
                  threads := AList.update (genId env ?g) ?c (threads m),
                  threadData := AList.update (genId env ?g) (initialData s) (threadData m),
                  generated := ?g + 1\<rparr>"
    have c: "createAdvancedCommentThread env s m = (?m1, [])"
      by (simp add: createAdvancedCommentThread_def f Let_def)
    have up: "[?g ..< ?g + Suc ?n] = ?g # [Suc ?g ..< Suc ?g + ?n]"
      by (simp add: upt_conv_Cons)
    have upc: "[?c ..< ?c + Suc ?n] = ?c # [Suc ?c ..< Suc ?c + ?n]"
      by (simp add: upt_conv_Cons)
    have fl: "filter (fileFound env) (s # ss) = s # filter (fileFound env) ss"
      using True by simp
    have "distinct (map fst (threads m) @ map (genId env) [?g ..< ?g + Suc ?n])"
      using Cons.prems(1) unfolding fl by (simp only: length_Cons)
    then have d: "distinct (map fst (threads m) @
        genId env ?g # map (genId env) [Suc ?g ..< Suc ?g + ?n])"
      unfolding up by (simp only: list.map)
    then have fresh: "genId env ?g \<notin> fst ` set (threads m)" by auto
    with Cons.prems(2) have fresh': "genId env ?g \<notin> fst ` set (threadData m)"
      by (metis list.set_map)
    have t1: "threads ?m1 = threads m @ [(genId env ?g, ?c)]"
      by (simp add: update_fresh [OF fresh])
    have d1: "threadData ?m1 = threadData m @ [(genId env ?g, initialData s)]"
      by (simp add: update_fresh [OF fresh'])
    have g1: "generated ?m1 = Suc ?g" by simp
    have len1: "length (created ?m1) = Suc ?c" by simp
    have p1: "distinct (map fst (threads ?m1) @
        map (genId env) [generated ?m1 ..< generated ?m1 + ?n])"
      unfolding t1 g1 using d by simp
    have p2: "map fst (threadData ?m1) = map fst (threads ?m1)"
      unfolding t1 d1 using Cons.prems(2) by simp
    note ih = Cons.IH [OF p1 p2, of "out @ []"]
    have r: "createAll env (s # ss) (m, out) = createAll env ss (?m1, out @ [])"
      by (simp add: c)
    let ?r = "fst (createAll env ss (?m1, out @ []))"
    from ih have i1: "threads ?r = threads ?m1 @ zip (map (genId env) [Suc ?g ..< Suc ?g + ?n])
             [Suc ?c ..< Suc ?c + ?n]"
      and i2: "threadData ?r = threadData ?m1 @ zip (map (genId env) [Suc ?g ..< Suc ?g + ?n])
             (map initialData (filter (fileFound env) ss))"
      and i3: "generated ?r = Suc ?g + ?n"
      and i4: "length (created ?r) = Suc ?c + ?n"
      and i5: "take (Suc ?c) (created ?r) = created ?m1"
      and i7: "drop (Suc ?c) (created ?r) =
           map (\<lambda>(s, k). newThread (hd (findFiles env (suggestionPath s))) s (genId env k))
             (zip (filter (fileFound env) ss) [Suc ?g ..< Suc ?g + ?n])"
      and i6: "\<forall>h. Suc ?c \<le> h \<and> h < length (created ?r) \<longrightarrow> \<not> disposed (created ?r ! h)"
      unfolding len1 g1 by blast+
    have a1: "threads ?r = threads m @ zip (map (genId env) [?g ..< ?g + Suc ?n])
             [?c ..< ?c + Suc ?n]"
      unfolding i1 t1 up upc by simp
    have a2: "threadData ?r = threadData m @ zip (map (genId env) [?g ..< ?g + Suc ?n])
             (map initialData (s # filter (fileFound env) ss))"
      unfolding i2 d1 up by simp
    have a5: "take ?c (created ?r) = created m"
    proof -
      have "take ?c (created ?r) = take ?c (take (Suc ?c) (created ?r))" by (simp add: min_def)
      also have "\<dots> = take ?c (created ?m1)" by (simp only: i5)
      also have "\<dots> = created m" by simp
      finally show ?thesis .
    qed
    have at: "created ?r ! ?c = newThread fileUri s (genId env ?g)"
    proof -
      have "created ?r ! ?c = take (Suc ?c) (created ?r) ! ?c" by simp
      also have "\<dots> = created ?m1 ! ?c" by (simp only: i5)
      also have "\<dots> = newThread fileUri s (genId env ?g)" by simp
      finally show ?thesis .
    qed
    have a6: "\<forall>h. ?c \<le> h \<and> h < length (created ?r) \<longrightarrow> \<not> disposed (created ?r ! h)"
    proof (intro allI impI)
      fix h assume h: "?c \<le> h \<and> h < length (created ?r)"
      show "\<not> disposed (created ?r ! h)"
      proof (cases "h = ?c")
        case True
        have "\<not> disposed (newThread fileUri s (genId env ?g))" by (simp add: newThread_def)
        then show ?thesis unfolding True at .
      next
        case False
        with h i6 show ?thesis by simp
      qed
    qed
    have a7: "drop ?c (created ?r) =
           map (\<lambda>(s, k). newThread (hd (findFiles env (suggestionPath s))) s (genId env k))
             (zip (s # filter (fileFound env) ss) [?g ..< ?g + Suc ?n])"
    proof -
      have "?c < length (created ?r)" using i4 by simp
      then have "drop ?c (created ?r) = created ?r ! ?c # drop (Suc ?c) (created ?r)"
        by (rule Cons_nth_drop_Suc [symmetric])
      then show ?thesis unfolding at i7 up by (simp add: f)
    qed
    show ?thesis
      unfolding r fl using a1 a2 i3 i4 a5 a6 a7 by simp
  qed
qed

text \<open>
  C10, as the claim words it, leaves one thread per suggestion whose file is found.
  With an identifier source that gives the same identifier twice, a review of two such
  suggestions leaves one registered thread, the one of the second suggestion.
\<close>

theorem equal_ids_leave_one_thread:
  "filter (fileFound collidingEnv) [sampleSuggestion 5 6 None, sampleSuggestion 7 8 None] =
     [sampleSuggestion 5 6 None, sampleSuggestion 7 8 None] \<and>
   threads (fst (displayReviewsAsComments collidingEnv
      \<lparr>summary = ''s'', suggestions = [sampleSuggestion 5 6 None, sampleSuggestion 7 8 None]\<rparr>
      newManager)) = [(''i'', 1)] \<and>
   map (startLine \<circ> suggestion \<circ> snd) (threadData (fst (displayReviewsAsComments collidingEnv
      \<lparr>summary = ''s'', suggestions = [sampleSuggestion 5 6 None, sampleSuggestion 7 8 None]\<rparr>
      newManager))) = [7]"
  by (simp add: displayReviewsAsComments_def clearAllComments_def newManager_def
        createAdvancedCommentThread_def collidingEnv_def sampleEnv_def sampleSuggestion_def
        fileFound_def initialData_def Let_def)

text \<open>
  C10, amended: let the identifiers generated for the suggestions of the new review
  whose file is found be pairwise distinct. \<open>displayReviewsAsComments\<close> first empties
  both maps and disposes every thread that was registered, and these threads are still
  disposed at the end. After it, the two maps hold, in the order of the review, exactly
  one entry per suggestion whose file was found, under the generated identifiers: the
  thread objects are the ones created after the clearing, each on the first file found,
  with the range of the suggestion, one comment made from the suggestion, and not
  disposed; the thread data hold the suggestion and a conversation of exactly one
  message, by the author \<^verbatim>\<open>CodeOwl AI\<close>, with the text of the suggestion.
\<close>

theorem display_replaces_threads:
  assumes "distinct (map (genId env)
             [generated this ..<
              generated this + length (filter (fileFound env) (suggestions review))])"
  shows "let cleared = clearAllComments this;
             this' = fst (displayReviewsAsComments env review this);
             matched = filter (fileFound env) (suggestions review);
             ids = map (genId env) [generated this ..< generated this + length matched]
         in threads cleared = [] \<and> threadData cleared = [] \<and>
            (\<forall>(k, h) \<in> set (threads this).
               h < length (created this) \<longrightarrow>
                 disposed (created cleared ! h) \<and> disposed (created this' ! h)) \<and>
            map fst (threads this') = ids \<and>
            map snd (threads this') =
              [length (created this) ..< length (created this) + length matched] \<and>
            length (created this') = length (created this) + length matched \<and>
            drop (length (created this)) (created this') =
              map (\<lambda>(s, threadId).
                     \<lparr>uri = hd (findFiles env (suggestionPath s)),
                      range_t = Some (suggestionRange s),
                      comments = [EnhancedComment s threadId], canReply = False,
                      contextValue = contextValueOf s, disposed = False\<rparr>)
                (zip matched ids) \<and>
            map fst (threadData this') = ids \<and>
            map snd (threadData this') =
              map (\<lambda>s. \<lparr>suggestion = s,
                         conversation = [\<lparr>author = ''CodeOwl AI'', message = suggestionText s\<rparr>],
                         isCollapsed = False\<rparr>) matched"
proof -
  let ?c = "clearAllComments this"
  let ?ss = "suggestions review"
  let ?n = "length (filter (fileFound env) ?ss)"
  let ?r = "fst (createAll env ?ss (?c, []))"
  have c1: "threads ?c = []" "threadData ?c = []" "generated ?c = generated this"
    by (simp_all add: clearAllComments_def)
  have c2: "length (created ?c) = length (created this)"
    by (simp add: clearAllComments_def length_disposeAll)
  have c3: "\<forall>(k, h) \<in> set (threads this). h < length (created this) \<longrightarrow>
      disposed (created ?c ! h)"
    by (auto simp: clearAllComments_def intro: disposeAll_hits)
  have d: "fst (displayReviewsAsComments env review this) = ?r"
    by (cases "?ss = []") (simp_all add: displayReviewsAsComments_def Let_def split: prod.splits)
  have p1: "distinct (map fst (threads ?c) @
      map (genId env) [generated ?c ..< generated ?c + ?n])"
    using assms by (simp only: c1 list.map append_Nil)
  have p2: "map fst (threadData ?c) = map fst (threads ?c)"
    by (simp add: c1)
  from createAll_lists [OF p1 p2, of "[]"]
  have t: "threads ?r = zip (map (genId env) [generated this ..< generated this + ?n])
        [length (created this) ..< length (created this) + ?n]"
    and td: "threadData ?r = zip (map (genId env) [generated this ..< generated this + ?n])
        (map initialData (filter (fileFound env) ?ss))"
    and len: "length (created ?r) = length (created this) + ?n"
    and tk: "take (length (created this)) (created ?r) = created ?c"
    and dr: "drop (length (created this)) (created ?r) =
        map (\<lambda>(s, k). newThread (hd (findFiles env (suggestionPath s))) s (genId env k))
          (zip (filter (fileFound env) ?ss) [generated this ..< generated this + ?n])"
    unfolding c1 c2 by simp_all
  have old: "\<forall>(k, h) \<in> set (threads this). h < length (created this) \<longrightarrow>
      disposed (created ?r ! h)"
  proof (intro ballI, clarify)
    fix k h assume kh: "(k, h) \<in> set (threads this)" and h: "h < length (created this)"
    have "created ?r ! h = take (length (created this)) (created ?r) ! h" using h by simp
    also have "\<dots> = created ?c ! h" by (simp only: tk)
    finally show "disposed (created ?r ! h)" using c3 kh h by auto
  qed
  have k1: "map fst (threads ?r) = map (genId env) [generated this ..< generated this + ?n]"
    unfolding t by simp
  have k2: "map snd (threads ?r) = [length (created this) ..< length (created this) + ?n]"
    unfolding t by simp
  have k3: "map fst (threadData ?r) = map (genId env) [generated this ..< generated this + ?n]"
    unfolding td by simp
  have k4: "map snd (threadData ?r) =
      map (\<lambda>s. \<lparr>suggestion = s,
                 conversation = [\<lparr>author = ''CodeOwl AI'', message = suggestionText s\<rparr>],
                 isCollapsed = False\<rparr>) (filter (fileFound env) ?ss)"
    unfolding td by (simp add: initialData_def)
  have k5: "drop (length (created this)) (created ?r) =
      map (\<lambda>(s, threadId).
             \<lparr>uri = hd (findFiles env (suggestionPath s)),
              range_t = Some (suggestionRange s),
              comments = [EnhancedComment s threadId], canReply = False,
              contextValue = contextValueOf s, disposed = False\<rparr>)
        (zip (filter (fileFound env) ?ss)
           (map (genId env) [generated this ..< generated this + ?n]))"
    unfolding dr by (simp add: zip_map2 newThread_def split_beta)
  show ?thesis
    unfolding Let_def d using c1(1,2) c3 old k1 k2 k3 k4 len k5 by auto
qed

theorem display_replaces_threads_witness:
  "distinct (map (genId (sampleEnv True)) [1 ..< 1 + 1]) \<and>
   threads (sampleManager None) = [(''i'', 0)] \<and>
   filter (fileFound (sampleEnv True))
     [sampleSuggestion 5 6 None, (sampleSuggestion 1 1 None)\<lparr>suggestionPath := ''b.ts''\<rparr>] =
     [sampleSuggestion 5 6 None] \<and>
   threads (fst (displayReviewsAsComments (sampleEnv True)
      \<lparr>summary = ''s'', suggestions =
         [sampleSuggestion 5 6 None, (sampleSuggestion 1 1 None)\<lparr>suggestionPath := ''b.ts''\<rparr>]\<rparr>
      (sampleManager None))) = [(''ii'', 1)] \<and>
   map snd (threadData (fst (displayReviewsAsComments (sampleEnv True)
      \<lparr>summary = ''s'', suggestions =
         [sampleSuggestion 5 6 None, (sampleSuggestion 1 1 None)\<lparr>suggestionPath := ''b.ts''\<rparr>]\<rparr>
      (sampleManager None)))) =
     [\<lparr>suggestion = sampleSuggestion 5 6 None,
       conversation = [\<lparr>author = ''CodeOwl AI'', message = ''rename''\<rparr>],
       isCollapsed = False\<rparr>] \<and>
   disposed (created (fst (displayReviewsAsComments (sampleEnv True)
      \<lparr>summary = ''s'', suggestions =
         [sampleSuggestion 5 6 None, (sampleSuggestion 1 1 None)\<lparr>suggestionPath := ''b.ts''\<rparr>]\<rparr>
      (sampleManager None))) ! 0)"
proof -
  let ?ss = "[sampleSuggestion 5 6 None, (sampleSuggestion 1 1 None)\<lparr>suggestionPath := ''b.ts''\<rparr>]"
  let ?rv = "\<lparr>summary = ''s'', suggestions = ?ss\<rparr>"
  let ?r = "fst (displayReviewsAsComments (sampleEnv True) ?rv (sampleManager None))"
  have f: "filter (fileFound (sampleEnv True)) ?ss = [sampleSuggestion 5 6 None]"
    by (simp add: fileFound_def sampleEnv_def sampleSuggestion_def)
  have g: "generated (sampleManager None) = 1" "length (created (sampleManager None)) = 1"
    "threads (sampleManager None) = [(''i'', 0)]"
    by (simp_all add: sampleManager_eq)
  have sug: "suggestions ?rv = ?ss" by simp
  have i: "map (genId (sampleEnv True)) [1 ..< 1 + 1] = [''ii'']"
    by (simp add: sampleEnv_def)
  have d: "distinct (map (genId (sampleEnv True))
      [generated (sampleManager None) ..<
       generated (sampleManager None) + length (filter (fileFound (sampleEnv True)) (suggestions ?rv))])"
    unfolding sug f g by (simp add: sampleEnv_def)
  have z: "\<And>xs a b. map fst xs = [a] \<Longrightarrow> map snd xs = [b] \<Longrightarrow> xs = [(a, b)]"
    by (auto simp: map_eq_Cons_conv)
  from display_replaces_threads [OF d]
  have k: "map fst (threads ?r) = [''ii'']" "map snd (threads ?r) = [1]"
    "map snd (threadData ?r) =
       [\<lparr>suggestion = sampleSuggestion 5 6 None,
         conversation = [\<lparr>author = ''CodeOwl AI'', message = suggestionText (sampleSuggestion 5 6 None)\<rparr>],
         isCollapsed = False\<rparr>]"
    "disposed (created ?r ! 0)"
    unfolding Let_def sug f g by (simp_all add: sampleEnv_def)
  show ?thesis
    using k z [OF k(1) k(2)] f g i by (simp add: sampleSuggestion_def)
qed

section \<open>The threads registered always exist\<close>

text \<open>
  A thread is read from \<open>created\<close> at the position that the map gives. From a new
  manager on, every operation keeps these positions inside \<open>created\<close>.
\<close>

lemma set_delete_subset: "set (AList.delete k al) \<subseteq> set al"
  by (induction al) auto

lemma set_update_subset: "set (AList.update k v al) \<subseteq> insert (k, v) (set al)"
  by (induction al) auto

lemma length_setComments: "length (setComments h cs ts) = length ts"
  by (simp add: setComments_def)

lemma handlesValid_remove: "handlesValid this \<Longrightarrow> handlesValid (removeThread k this)"
proof -
  assume v: "handlesValid this"
  show ?thesis
  proof (cases "map_of (threads this) k")
    case None
    with v show ?thesis by (simp add: removeThread_def)
  next
    case (Some h)
    have "set (threads (removeThread k this)) \<subseteq> set (threads this)"
      using Some by (simp add: removeThread_def set_delete_subset)
    moreover have "length (created (removeThread k this)) = length (created this)"
      using Some by (simp add: removeThread_def length_dispose)
    ultimately show ?thesis using v by (auto simp: handlesValid_def)
  qed
qed

lemma handlesValid_create:
  "handlesValid this \<Longrightarrow> handlesValid (fst (createAdvancedCommentThread env s this))"
proof (cases "findFiles env (suggestionPath s)")
  case Nil
  assume "handlesValid this"
  with Nil show ?thesis by (simp add: createAdvancedCommentThread_def)
next
  case (Cons fileUri others)
  assume v: "handlesValid this"
  let ?r = "fst (createAdvancedCommentThread env s this)"
  have t: "set (threads ?r) \<subseteq>
      insert (genId env (generated this), length (created this)) (set (threads this))"
    using Cons by (simp add: createAdvancedCommentThread_def Let_def set_update_subset)
  have l: "length (created ?r) = Suc (length (created this))"
    using Cons by (simp add: createAdvancedCommentThread_def Let_def)
  show ?thesis
    unfolding handlesValid_def l using t v by (fastforce simp: handlesValid_def)
qed

lemma handlesValid_perform: "handlesValid this \<Longrightarrow> handlesValid (perform env operation this)"
proof (cases operation)
  case (CreateThread s)
  assume "handlesValid this"
  with CreateThread show ?thesis by (simp add: handlesValid_create)
next
  case (Reply k t)
  assume "handlesValid this"
  with Reply show ?thesis
    by (auto simp: handlesValid_def handleUserReplyFromComment_def Let_def length_setComments
          split: option.splits)
next
  case (FixWithAI k)
  assume "handlesValid this"
  with FixWithAI show ?thesis
    by (auto simp: handlesValid_def fixWithAI_def Let_def length_setComments
          split: option.splits prod.splits)
next
  case (Apply k)
  assume "handlesValid this"
  with Apply show ?thesis
    by (auto simp: applySuggestion_def handlesValid_remove split: option.splits sum.splits bool.splits)
next
  case (Resolve k)
  assume "handlesValid this"
  with Resolve show ?thesis
    by (auto simp: markAsUnderstood_def handlesValid_remove split: option.splits)
next
  case ClearAll
  then show ?thesis by (simp add: handlesValid_def clearAllComments_def)
qed

lemma handlesValid_new: "handlesValid newManager"
  by (simp add: handlesValid_def newManager_def)

end
